theory Spec2Isabelle
  imports Complex_Main "HOL-Library.AList"
begin

section \<open>The game client of src/game.js\<close>

text \<open>
  The class \<open>GameClient\<close> is embedded as a record of its fields and one function per
  method; a method takes the client and returns the updated client together with the
  effects it performed, in order.

  Conventions of the embedding:
  \<^item> JavaScript numbers are idealised as reals; \<open>None\<close> of type \<open>num\<close> stands for a
    value that arithmetic reads as \<open>NaN\<close> (\<open>undefined\<close>, or \<open>NaN\<close> itself).
  \<^item> An inbound message is the value \<open>JSON.parse\<close> returned, typed by the protocol:
    every field either has the type the handlers use it at, or is missing
    (\<open>None\<close>, read as \<open>undefined\<close>).
  \<^item> A \<open>Map\<close> that the code iterates is an association list in insertion order;
    a \<open>Map\<close> or \<open>Set\<close> that is only probed is a HOL map or set.
  \<^item> Canvas drawing, image loading and the status labels of the page are not modelled;
    they neither read nor write the fields below, and the canvas calls are taken to
    return. \<open>this.worldImage\<close> is set by \<open>init\<close> before any handler can run, so the
    guard at the head of \<open>draw\<close> never fires, and \<open>draw\<close> is its call of
    \<open>checkProximityGreetings\<close>.
  \<^item> To emit a command is to call its emitter (\<open>sendMoveCommand\<close>, \<open>askPlayerToGreet\<close>,
    \<open>askPlayerToSayGoodbye\<close>); whether the emitter then hands a frame to the socket is
    recorded with the call.
\<close>

subsection \<open>Values\<close>

type_synonym num = "real option"

definition num_sub :: "num \<Rightarrow> num \<Rightarrow> num" where
  "num_sub a b = (case a of None \<Rightarrow> None | Some u \<Rightarrow> (case b of None \<Rightarrow> None | Some v \<Rightarrow> Some (u - v)))"

definition num_add :: "num \<Rightarrow> num \<Rightarrow> num" where
  "num_add a b = (case a of None \<Rightarrow> None | Some u \<Rightarrow> (case b of None \<Rightarrow> None | Some v \<Rightarrow> Some (u + v)))"

definition num_mul :: "num \<Rightarrow> num \<Rightarrow> num" where
  "num_mul a b = (case a of None \<Rightarrow> None | Some u \<Rightarrow> (case b of None \<Rightarrow> None | Some v \<Rightarrow> Some (u * v)))"

definition Math_sqrt :: "num \<Rightarrow> num" where
  "Math_sqrt a = (case a of None \<Rightarrow> None | Some u \<Rightarrow> (if u < 0 then None else Some (sqrt u)))"

definition Math_min :: "num \<Rightarrow> num \<Rightarrow> num" where
  "Math_min a b = (case a of None \<Rightarrow> None | Some u \<Rightarrow> (case b of None \<Rightarrow> None | Some v \<Rightarrow> Some (min u v)))"

definition Math_max :: "num \<Rightarrow> num \<Rightarrow> num" where
  "Math_max a b = (case a of None \<Rightarrow> None | Some u \<Rightarrow> (case b of None \<Rightarrow> None | Some v \<Rightarrow> Some (max u v)))"

text \<open>\<open>a <= b\<close> on numbers: false as soon as one side is \<open>NaN\<close>.\<close>

definition num_le :: "num \<Rightarrow> num \<Rightarrow> bool" where
  "num_le a b = (case a of None \<Rightarrow> False | Some u \<Rightarrow> (case b of None \<Rightarrow> False | Some v \<Rightarrow> u \<le> v))"

text \<open>
  The keys of the player maps and the value of \<open>this.playerId\<close>: \<open>null\<close> (the initial
  \<open>playerId\<close>), \<open>undefined\<close> (an id missing from a message) or a string.
\<close>

datatype ident = KNull | KUndefined | KString string

definition key_of :: "string option \<Rightarrow> ident" where
  "key_of f = (case f of None \<Rightarrow> KUndefined | Some s \<Rightarrow> KString s)"

text \<open>\<open>!k\<close>: \<open>null\<close>, \<open>undefined\<close> and the empty string are falsy.\<close>

definition falsy :: "ident \<Rightarrow> bool" where
  "falsy k = (k = KNull \<or> k = KUndefined \<or> k = KString [])"

record player =
  p_id :: "string option"
  p_username :: "string option"
  p_x :: num
  p_y :: num
  p_avatar :: "string option"
  p_facing :: "string option"
  p_animationFrame :: "nat option"

record avatar =
  a_name :: "string option"
  a_frames :: "(string \<times> string list) list"

record point =
  pos_x :: num
  pos_y :: num

datatype direction = Up | Down | Left | Right | Stop

datatype proximity = Near | Far

datatype ready_state = CONNECTING | OPEN | CLOSING | CLOSED

text \<open>
  Inbound messages, by \<open>action\<close>. \<open>JoinGame success playerId players avatars\<close>,
  \<open>PlayersMoved players\<close>, \<open>PlayerJoined player avatar\<close>, \<open>PlayerLeft playerId\<close>;
  \<open>UnknownAction\<close> is any other (or no) \<open>action\<close>. An object used as a dictionary is the
  list of its entries in the order \<open>Object.entries\<close> enumerates them.
\<close>

datatype inbound =
    JoinGame "bool option" "string option" "(string \<times> player) list option"
      "(string \<times> avatar) list option"
  | PlayersMoved "(string \<times> player) list option"
  | PlayerJoined "player option" "avatar option"
  | PlayerLeft "string option"
  | UnknownAction

datatype outbound = Join_game string | Move direction | Chat string

subsection \<open>Effects\<close>

text \<open>
  \<open>io\<close> is what reaches the outside: a frame handed to \<open>socket.send\<close>, a console line,
  a banner of \<open>showMessage\<close>. An \<open>effect\<close> records a call of one of the three emitters
  with the io its body performed: \<open>MoveCommand d\<close> is \<open>sendMoveCommand(d)\<close>,
  \<open>Greet k\<close> is \<open>askPlayerToGreet(player)\<close> for the registry entry \<open>k\<close>, \<open>Farewell k\<close> is
  \<open>askPlayerToSayGoodbye(player)\<close> for the entry \<open>k\<close>. The io list is empty when the
  emitter found the socket not open and returned at its guard.
\<close>

datatype io =
    SocketSend outbound
  | ConsoleLog string
  | ConsoleError string
  | ShowMessage string

datatype effect =
    MoveCommand direction "io list"
  | Greet ident "io list"
  | Farewell ident "io list"
  | Io io

datatype completion = Returned | Threw

subsection \<open>The client\<close>

text \<open>
  \<open>intervals\<close> and \<open>nextHandle\<close> are the browser's side of \<open>setInterval\<close>: the active
  intervals with the direction their callback captured, and the next handle
  (handles are positive and never reused).
\<close>

record client =
  worldWidth :: real
  worldHeight :: real
  canvas_width :: nat
  canvas_height :: nat
  playerId :: ident
  playerPosition :: point
  players :: "(ident \<times> player) list"
  avatars :: "(ident \<times> avatar) list"
  viewport :: point
  socket :: "ready_state option"
  activeKeys :: "string set"
  isMoving :: bool
  movementInterval :: "nat option"
  greetedPlayers :: "ident set"
  proximityThreshold :: real
  playerProximityState :: "ident \<rightharpoonup> proximity"
  intervals :: "(nat \<times> direction) list"
  nextHandle :: nat

text \<open>The constructor followed by \<open>init\<close>, in a window of the given inner size.\<close>

definition init :: "nat \<Rightarrow> nat \<Rightarrow> client" where
  "init w h =
     \<lparr> worldWidth = 2048, worldHeight = 2048,
       canvas_width = w, canvas_height = h,
       playerId = KNull,
       playerPosition = \<lparr> pos_x = Some 0, pos_y = Some 0 \<rparr>,
       players = [], avatars = [],
       viewport = \<lparr> pos_x = Some 0, pos_y = Some 0 \<rparr>,
       socket = Some CONNECTING,
       activeKeys = {}, isMoving = False, movementInterval = None,
       greetedPlayers = {}, proximityThreshold = 100,
       playerProximityState = Map.empty,
       intervals = [], nextHandle = 1 \<rparr>"

subsection \<open>Map operations\<close>

definition map_set :: "'k \<Rightarrow> 'v \<Rightarrow> ('k \<times> 'v) list \<Rightarrow> ('k \<times> 'v) list" where
  "map_set k v m = AList.update k v m"

definition map_delete :: "'k \<Rightarrow> ('k \<times> 'v) list \<Rightarrow> ('k \<times> 'v) list" where
  "map_delete k m = AList.delete k m"

definition map_get :: "('k \<times> 'v) list \<Rightarrow> 'k \<Rightarrow> 'v option" where
  "map_get m k = map_of m k"

subsection \<open>Viewport\<close>

definition updateViewport :: "client \<Rightarrow> client" where
  "updateViewport st =
     (let centerX = num_sub (pos_x (playerPosition st)) (Some (real (canvas_width st) / 2));
          centerY = num_sub (pos_y (playerPosition st)) (Some (real (canvas_height st) / 2))
      in st\<lparr> viewport :=
           \<lparr> pos_x = Math_max (Some 0)
                (Math_min centerX (Some (worldWidth st - real (canvas_width st)))),
             pos_y = Math_max (Some 0)
                (Math_min centerY (Some (worldHeight st - real (canvas_height st)))) \<rparr> \<rparr>)"

subsection \<open>Transport guard and emitters\<close>

text \<open>\<open>this.socket && this.socket.readyState === WebSocket.OPEN\<close>\<close>

definition socket_open :: "client \<Rightarrow> bool" where
  "socket_open st = (socket st = Some OPEN)"

definition sendMoveCommand :: "client \<Rightarrow> direction \<Rightarrow> effect" where
  "sendMoveCommand st d =
     MoveCommand d
       (if \<not> socket_open st then []
        else [SocketSend (Move d), ConsoleLog ''Sent move command:''])"

text \<open>A template literal prints a missing field as \<open>undefined\<close>.\<close>

definition template :: "string option \<Rightarrow> string" where
  "template f = (case f of None \<Rightarrow> ''undefined'' | Some s \<Rightarrow> s)"

definition askPlayerToGreet :: "client \<Rightarrow> player \<Rightarrow> io list" where
  "askPlayerToGreet st pl =
     (if \<not> socket_open st then []
      else [SocketSend (Chat ''hii! nice to meet you Roger''),
            ConsoleLog (template (p_username pl) @ '' greeted Roger!''),
            ShowMessage (template (p_username pl) @ '': hii! nice to meet you Roger'')])"

definition askPlayerToSayGoodbye :: "client \<Rightarrow> player \<Rightarrow> io list" where
  "askPlayerToSayGoodbye st pl =
     (if \<not> socket_open st then []
      else [SocketSend (Chat ''bye Roger!''),
            ConsoleLog (template (p_username pl) @ '' said goodbye to Roger!''),
            ShowMessage (template (p_username pl) @ '': bye Roger!'')])"

definition sayHello :: "client \<Rightarrow> effect list" where
  "sayHello st =
     (if \<not> socket_open st then [Io (ConsoleLog ''Not connected to server'')]
      else [Io (SocketSend (Chat ''Hello!'')), Io (ConsoleLog ''Said hello!''),
            Io (ShowMessage ''Roger: Hello World, thanks for playing!'')])"

subsection \<open>Movement input\<close>

definition arrowKeys :: "string list" where
  "arrowKeys = [''ArrowUp'', ''ArrowDown'', ''ArrowLeft'', ''ArrowRight'']"

definition getPrimaryDirection :: "client \<Rightarrow> direction" where
  "getPrimaryDirection st =
     (if ''ArrowUp'' \<in> activeKeys st then Up
      else if ''ArrowDown'' \<in> activeKeys st then Down
      else if ''ArrowLeft'' \<in> activeKeys st then Left
      else if ''ArrowRight'' \<in> activeKeys st then Right
      else Stop)"

definition clearInterval :: "nat \<Rightarrow> client \<Rightarrow> client" where
  "clearInterval h st = st\<lparr> intervals := filter (\<lambda>t. fst t \<noteq> h) (intervals st) \<rparr>"

definition setInterval :: "direction \<Rightarrow> client \<Rightarrow> nat \<times> client" where
  "setInterval d st =
     (nextHandle st,
      st\<lparr> intervals := intervals st @ [(nextHandle st, d)],
          nextHandle := Suc (nextHandle st) \<rparr>)"

text \<open>\<open>if (this.movementInterval)\<close>: a handle other than \<open>null\<close> and \<open>0\<close>.\<close>

definition truthy_handle :: "nat option \<Rightarrow> bool" where
  "truthy_handle m = (case m of None \<Rightarrow> False | Some h \<Rightarrow> h \<noteq> 0)"

definition startContinuousMovement :: "client \<Rightarrow> client \<times> effect list" where
  "startContinuousMovement st =
     (let st1 = (if truthy_handle (movementInterval st)
                 then clearInterval (the (movementInterval st)) st else st);
          direction = getPrimaryDirection st1
      in if direction \<noteq> Stop then
           (let e = sendMoveCommand st1 direction;
                st2 = st1\<lparr> isMoving := True \<rparr>;
                (h, st3) = setInterval direction st2
            in (st3\<lparr> movementInterval := Some h \<rparr>, [e]))
         else (st1, []))"

definition stopContinuousMovement :: "client \<Rightarrow> client \<times> effect list" where
  "stopContinuousMovement st =
     (let st1 = (if truthy_handle (movementInterval st)
                 then (clearInterval (the (movementInterval st)) st)\<lparr> movementInterval := None \<rparr>
                 else st)
      in if isMoving st1 then (st1\<lparr> isMoving := False \<rparr>, [sendMoveCommand st1 Stop])
         else (st1, []))"

definition handleKeyDown :: "client \<Rightarrow> string \<Rightarrow> client \<times> effect list" where
  "handleKeyDown st code =
     (if code \<in> set arrowKeys
      then startContinuousMovement (st\<lparr> activeKeys := insert code (activeKeys st) \<rparr>)
      else (st, []))"

definition handleKeyUp :: "client \<Rightarrow> string \<Rightarrow> client \<times> effect list" where
  "handleKeyUp st code =
     (if code \<in> set arrowKeys then
        (let st1 = st\<lparr> activeKeys := activeKeys st - {code} \<rparr>
         in if activeKeys st1 = {} then stopContinuousMovement st1
            else startContinuousMovement st1)
      else (st, []))"

text \<open>The callback of the interval with handle \<open>h\<close> fires.\<close>

definition intervalFires :: "client \<Rightarrow> nat \<Rightarrow> client \<times> effect list" where
  "intervalFires st h =
     (case map_of (intervals st) h of
        None \<Rightarrow> (st, [])
      | Some d \<Rightarrow> (st, [sendMoveCommand st d]))"

subsection \<open>Proximity\<close>

definition calculateDistance :: "player \<Rightarrow> player \<Rightarrow> num" where
  "calculateDistance player1 player2 =
     (let dx = num_sub (p_x player1) (p_x player2);
          dy = num_sub (p_y player1) (p_y player2)
      in Math_sqrt (num_add (num_mul dx dx) (num_mul dy dy)))"

text \<open>The body of the loop of \<open>checkProximityGreetings\<close> for one entry of \<open>this.players\<close>.\<close>

definition proximityBody :: "player \<Rightarrow> ident \<Rightarrow> player \<Rightarrow> client \<Rightarrow> client \<times> effect list" where
  "proximityBody ourPlayer pid pl st =
     (if pid = playerId st then (st, [])
      else
        (let isNear = num_le (calculateDistance ourPlayer pl) (Some (proximityThreshold st));
             currentState = (case playerProximityState st pid of None \<Rightarrow> Far | Some s \<Rightarrow> s)
         in if isNear \<and> currentState = Far \<and> pid \<notin> greetedPlayers st then
              (st\<lparr> greetedPlayers := insert pid (greetedPlayers st),
                   playerProximityState := (playerProximityState st)(pid \<mapsto> Near) \<rparr>,
               [Greet pid (askPlayerToGreet st pl)])
            else if \<not> isNear \<and> currentState = Near then
              (st\<lparr> playerProximityState := (playerProximityState st)(pid \<mapsto> Far) \<rparr>,
               [Farewell pid (askPlayerToSayGoodbye st pl)])
            else if isNear then
              (st\<lparr> playerProximityState := (playerProximityState st)(pid \<mapsto> Near) \<rparr>, [])
            else
              (st\<lparr> playerProximityState := (playerProximityState st)(pid \<mapsto> Far) \<rparr>, [])))"

fun proximityLoop :: "player \<Rightarrow> (ident \<times> player) list \<Rightarrow> client \<Rightarrow> client \<times> effect list" where
  "proximityLoop ourPlayer [] st = (st, [])"
| "proximityLoop ourPlayer (e # es) st =
     (let (st1, out1) = proximityBody ourPlayer (fst e) (snd e) st;
          (st2, out2) = proximityLoop ourPlayer es st1
      in (st2, out1 @ out2))"

definition checkProximityGreetings :: "client \<Rightarrow> client \<times> effect list" where
  "checkProximityGreetings st =
     (if falsy (playerId st) then (st, [])
      else (case map_get (players st) (playerId st) of
              None \<Rightarrow> (st, [])
            | Some ourPlayer \<Rightarrow> proximityLoop ourPlayer (players st) st))"

definition draw :: "client \<Rightarrow> client \<times> effect list" where
  "draw st = checkProximityGreetings st"

subsection \<open>Inbound messages\<close>

definition store_player :: "string \<times> player \<Rightarrow> client \<Rightarrow> client" where
  "store_player e st = st\<lparr> players := map_set (KString (fst e)) (snd e) (players st) \<rparr>"

definition store_avatar :: "string \<times> avatar \<Rightarrow> client \<Rightarrow> client" where
  "store_avatar e st = st\<lparr> avatars := map_set (KString (fst e)) (snd e) (avatars st) \<rparr>"

definition handleJoinGame ::
  "client \<Rightarrow> bool option \<Rightarrow> string option \<Rightarrow> (string \<times> player) list option \<Rightarrow>
     (string \<times> avatar) list option \<Rightarrow> completion \<times> client \<times> effect list" where
  "handleJoinGame st success pid ps avs =
     (if success = Some True then
        (let st1 = st\<lparr> playerId := key_of pid \<rparr>
         in case ps of
              None \<Rightarrow> (Threw, st1, [])
            | Some pl \<Rightarrow>
                (let st2 = fold store_player pl st1
                 in case avs of
                      None \<Rightarrow> (Threw, st2, [])
                    | Some al \<Rightarrow>
                        (let st3 = fold store_avatar al st2;
                             st4 = (case map_get (players st3) (playerId st3) of
                                      None \<Rightarrow> st3
                                    | Some ourPlayer \<Rightarrow>
                                        updateViewport
                                          (st3\<lparr> playerPosition :=
                                             \<lparr> pos_x = p_x ourPlayer, pos_y = p_y ourPlayer \<rparr> \<rparr>));
                             (st5, out) = draw st4
                         in (Returned, st5,
                             Io (ConsoleLog ''Successfully joined game as'') # out))))
      else (Returned, st, [Io (ConsoleError ''Failed to join game:'')]))"

definition moved_entry :: "string \<times> player \<Rightarrow> client \<Rightarrow> client" where
  "moved_entry e st =
     (let st1 = store_player e st
      in if KString (fst e) = playerId st1 then
           updateViewport (st1\<lparr> playerPosition := \<lparr> pos_x = p_x (snd e), pos_y = p_y (snd e) \<rparr> \<rparr>)
         else st1)"

definition handlePlayersMoved ::
  "client \<Rightarrow> (string \<times> player) list option \<Rightarrow> completion \<times> client \<times> effect list" where
  "handlePlayersMoved st ps =
     (case ps of
        None \<Rightarrow> (Threw, st, [])
      | Some pl \<Rightarrow>
          (let (st1, out) = draw (fold moved_entry pl st)
           in (Returned, st1, out)))"

definition handlePlayerJoined ::
  "client \<Rightarrow> player option \<Rightarrow> avatar option \<Rightarrow> completion \<times> client \<times> effect list" where
  "handlePlayerJoined st p a =
     (case p of
        None \<Rightarrow> (Threw, st, [])
      | Some pl \<Rightarrow>
          (let st1 = st\<lparr> players := map_set (key_of (p_id pl)) pl (players st) \<rparr>
           in case a of
                None \<Rightarrow> (Threw, st1, [])
              | Some av \<Rightarrow>
                  (let st2 = st1\<lparr> avatars := map_set (key_of (a_name av)) av (avatars st1) \<rparr>;
                       (st3, out) = draw st2
                   in (Returned, st3, Io (ConsoleLog ''Player joined:'') # out))))"

definition handlePlayerLeft :: "client \<Rightarrow> string option \<Rightarrow> completion \<times> client \<times> effect list" where
  "handlePlayerLeft st pid =
     (let k = key_of pid;
          st1 = st\<lparr> players := map_delete k (players st) \<rparr>;
          st2 = st1\<lparr> greetedPlayers := greetedPlayers st1 - {k} \<rparr>;
          st3 = st2\<lparr> playerProximityState := (playerProximityState st2)(k := None) \<rparr>;
          (st4, out) = draw st3
      in (Returned, st4, Io (ConsoleLog ''Player left:'') # out))"

definition handleMessage :: "client \<Rightarrow> inbound \<Rightarrow> completion \<times> client \<times> effect list" where
  "handleMessage st message =
     (let (c, st1, out) =
            (case message of
               JoinGame success pid ps avs \<Rightarrow> handleJoinGame st success pid ps avs
             | PlayersMoved ps \<Rightarrow> handlePlayersMoved st ps
             | PlayerJoined p a \<Rightarrow> handlePlayerJoined st p a
             | PlayerLeft pid \<Rightarrow> handlePlayerLeft st pid
             | UnknownAction \<Rightarrow> (Returned, st, [Io (ConsoleLog ''Unknown message type:'')]))
      in (c, st1, Io (ConsoleLog ''Received message:'') # out))"

text \<open>
  \<open>socket.onmessage\<close>. The argument is what \<open>JSON.parse(event.data)\<close> gives: \<open>None\<close> when
  it throws. An exception from the handler is caught by the same \<open>catch\<close>; the writes
  made before it stay.
\<close>

definition onmessage :: "client \<Rightarrow> inbound option \<Rightarrow> client \<times> effect list" where
  "onmessage st parsed =
     (case parsed of
        None \<Rightarrow> (st, [Io (ConsoleError ''Error parsing message:'')])
      | Some message \<Rightarrow>
          (case handleMessage st message of
             (Returned, st1, out) \<Rightarrow> (st1, out)
           | (Threw, st1, out) \<Rightarrow> (st1, out @ [Io (ConsoleError ''Error parsing message:'')])))"

subsection \<open>Events\<close>

datatype event =
    Message "inbound option"
  | KeyDown string string
  | KeyUp string
  | IntervalFires nat
  | Resize nat nat
  | WorldImageLoaded
  | SocketOpened
  | SocketClosed
  | SocketFailed

text \<open>
  One event of the page, run to completion. \<open>KeyDown code key\<close> reaches both keydown
  listeners; \<open>Resize\<close> and \<open>WorldImageLoaded\<close> redraw; \<open>SocketOpened\<close> is \<open>onopen\<close>
  (the socket is open by then, and \<open>joinGame\<close> sends), \<open>SocketClosed\<close> is \<open>onclose\<close>.
\<close>

fun step :: "client \<Rightarrow> event \<Rightarrow> client \<times> effect list" where
  "step st (Message parsed) = onmessage st parsed"
| "step st (KeyDown code key) =
     (let (st1, out) = handleKeyDown st code
      in if key = ''Enter'' then (st1, out @ sayHello st1) else (st1, out))"
| "step st (KeyUp code) = handleKeyUp st code"
| "step st (IntervalFires h) = intervalFires st h"
| "step st (Resize w h) = draw (st\<lparr> canvas_width := w, canvas_height := h \<rparr>)"
| "step st WorldImageLoaded = draw st"
| "step st SocketOpened =
     (st\<lparr> socket := Some OPEN \<rparr>,
      [Io (ConsoleLog ''Connected to game server''), Io (SocketSend (Join_game ''Roger''))])"
| "step st SocketClosed =
     (st\<lparr> socket := Some CLOSED \<rparr>, [Io (ConsoleLog ''Disconnected from game server'')])"
| "step st SocketFailed = (st, [Io (ConsoleError ''WebSocket error:'')])"

fun run :: "client \<Rightarrow> event list \<Rightarrow> client \<times> effect list" where
  "run st [] = (st, [])"
| "run st (e # es) =
     (let (st1, out1) = step st e;
          (st2, out2) = run st1 es
      in (st2, out1 @ out2))"

subsection \<open>Notions of the specification\<close>

text \<open>
  \<open>clamp v lo hi\<close> as the specification words it: \<open>v\<close> held between \<open>lo\<close> and \<open>hi\<close>, the
  lower bound winning when the interval is empty.
\<close>

definition clamp :: "real \<Rightarrow> real \<Rightarrow> real \<Rightarrow> real" where
  "clamp v lo hi = (if hi < lo \<or> v < lo then lo else if hi < v then hi else v)"

text \<open>
  The primary direction as the specification words it: the first held key in the order
  up, down, left, right, and \<open>stop\<close> when none of them is held.
\<close>

definition primaryDirection :: "string set \<Rightarrow> direction" where
  "primaryDirection held =
     (case find (\<lambda>p. fst p \<in> held)
             [(''ArrowUp'', Up), (''ArrowDown'', Down), (''ArrowLeft'', Left), (''ArrowRight'', Right)] of
        None \<Rightarrow> Stop
      | Some p \<Rightarrow> snd p)"

text \<open>The direction that the active interval is resending; \<open>Stop\<close> when idle.\<close>

definition sentDirection :: "client \<Rightarrow> direction" where
  "sentDirection st = (case intervals st of [] \<Rightarrow> Stop | t # _ \<Rightarrow> snd t)"

subsection \<open>Auxiliary notions\<close>

text \<open>The fields that the keyboard handlers and the interval timer read and write.\<close>

definition input_state :: "client \<Rightarrow> string set \<times> bool \<times> nat option \<times> (nat \<times> direction) list \<times> nat" where
  "input_state st = (activeKeys st, isMoving st, movementInterval st, intervals st, nextHandle st)"

text \<open>
  The invariant of the movement fields: only arrow keys are held; while one is held the
  client is moving and holds the handle of the single active interval, which repeats the
  primary direction; while none is held there is no interval.
\<close>

definition movement_inv :: "client \<Rightarrow> bool" where
  "movement_inv st =
     (activeKeys st \<subseteq> set arrowKeys \<and> 0 < nextHandle st \<and>
      (\<forall>t \<in> set (intervals st). 0 < fst t \<and> fst t < nextHandle st) \<and>
      (if activeKeys st = {}
       then intervals st = [] \<and> movementInterval st = None \<and> \<not> isMoving st
       else isMoving st \<and>
            (\<exists>h. movementInterval st = Some h \<and> intervals st = [(h, getPrimaryDirection st)])))"

text \<open>\<open>frame st st'\<close>: \<open>st'\<close> differs from \<open>st\<close> in the proximity bookkeeping only.\<close>

definition frame :: "client \<Rightarrow> client \<Rightarrow> bool" where
  "frame st st' = (\<exists>G P. st' = st\<lparr> greetedPlayers := G, playerProximityState := P \<rparr>)"

text \<open>A connected client on which the up arrow has been pressed once.\<close>

definition holding_up :: client where
  "holding_up = fst (run (init 800 600) [SocketOpened, KeyDown ''ArrowUp'' ''ArrowUp''])"

text \<open>A client, not yet connected, on which the left arrow has been pressed once.\<close>

definition holding_left :: client where
  "holding_left = fst (run (init 800 600) [KeyDown ''ArrowLeft'' ''ArrowLeft''])"

text \<open>A successful \<open>join_game\<close> reply that carries the id and neither \<open>players\<close> nor \<open>avatars\<close>.\<close>

definition roster_incomplete :: inbound where
  "roster_incomplete = JoinGame (Some True) (Some ''p1'') None None"

text \<open>The effects of a run that concern one peer.\<close>

fun is_greet :: "ident \<Rightarrow> effect \<Rightarrow> bool" where
  "is_greet k (Greet k' ios) = (k' = k)"
| "is_greet k (MoveCommand d ios) = False"
| "is_greet k (Farewell k' ios) = False"
| "is_greet k (Io i) = False"

fun is_farewell :: "ident \<Rightarrow> effect \<Rightarrow> bool" where
  "is_farewell k (Farewell k' ios) = (k' = k)"
| "is_farewell k (MoveCommand d ios) = False"
| "is_farewell k (Greet k' ios) = False"
| "is_farewell k (Io i) = False"

definition greets :: "ident \<Rightarrow> effect list \<Rightarrow> nat" where
  "greets k out = length (filter (is_greet k) out)"

definition farewells :: "ident \<Rightarrow> effect list \<Rightarrow> nat" where
  "farewells k out = length (filter (is_farewell k) out)"

text \<open>The event is the \<open>player_left\<close> message of the peer \<open>k\<close>.\<close>

fun departure :: "ident \<Rightarrow> event \<Rightarrow> bool" where
  "departure k (Message (Some (PlayerLeft pid))) = (key_of pid = k)"
| "departure k ev = False"

text \<open>\<open>isNear\<close> of the loop body: the distance is at most the threshold.\<close>

definition isNear :: "client \<Rightarrow> player \<Rightarrow> player \<Rightarrow> bool" where
  "isNear st ourPlayer pl = num_le (calculateDistance ourPlayer pl) (Some (proximityThreshold st))"

text \<open>A \<open>Map\<close> holds each key once.\<close>

definition wf_players :: "client \<Rightarrow> bool" where
  "wf_players st = distinct (map fst (players st))"

text \<open>What the client remembers about the peer \<open>k\<close>: its proximity state and its greeted flag.\<close>

definition peer_view :: "ident \<Rightarrow> client \<Rightarrow> proximity option \<times> bool" where
  "peer_view k st = (playerProximityState st k, k \<in> greetedPlayers st)"

definition peer_events :: "ident \<Rightarrow> effect list \<Rightarrow> effect list" where
  "peer_events k out = filter (\<lambda>e. is_greet k e \<or> is_farewell k e) out"

text \<open>The fields that the proximity loop reads besides the registry.\<close>

definition prox_part :: "client \<Rightarrow> ident set \<times> (ident \<rightharpoonup> proximity) \<times> ready_state option" where
  "prox_part st = (greetedPlayers st, playerProximityState st, socket st)"

text \<open>
  One evaluation for the peer \<open>k\<close>, from the view \<open>v\<close> to the view \<open>v'\<close> with the effects
  \<open>evs\<close>: one greeting exactly when the peer goes from not near to near with the flag
  unset, one farewell exactly when it goes from near to far, the flag set from then on,
  and nothing sent with a greeting while the socket is not open.
\<close>

definition transition_ok ::
  "ident \<Rightarrow> proximity option \<times> bool \<Rightarrow> bool \<Rightarrow> proximity option \<times> bool \<Rightarrow> effect list \<Rightarrow> bool" where
  "transition_ok k v opn v' evs =
     (length (filter (is_greet k) evs)
        = (if \<not> snd v \<and> fst v \<noteq> Some Near \<and> fst v' = Some Near then 1 else 0)
      \<and> length (filter (is_farewell k) evs)
        = (if fst v = Some Near \<and> fst v' = Some Far then 1 else 0)
      \<and> snd v' = (snd v \<or> filter (is_greet k) evs \<noteq> [])
      \<and> (opn \<or> filter (is_greet k) evs = replicate (length (filter (is_greet k) evs)) (Greet k [])))"

definition peer_step :: "ident \<Rightarrow> client \<Rightarrow> client \<Rightarrow> effect list \<Rightarrow> bool" where
  "peer_step k s s' out =
     transition_ok k (peer_view k s) (socket_open s) (peer_view k s') (peer_events k out)"

text \<open>A handler keeps the registry well formed and evaluates every peer as above.\<close>

definition step_ok :: "ident \<Rightarrow> client \<Rightarrow> client \<times> effect list \<Rightarrow> bool" where
  "step_ok k R res =
     (wf_players R \<longrightarrow> wf_players (fst res) \<and> peer_step k R (fst res) (snd res))"

text \<open>The near-to-far transitions of the peer \<open>k\<close> along a run, counted event by event.\<close>

fun exits :: "ident \<Rightarrow> client \<Rightarrow> event list \<Rightarrow> nat" where
  "exits k st [] = 0"
| "exits k st (e # es) =
     (if playerProximityState st k = Some Near \<and> playerProximityState (fst (step st e)) k = Some Far
      then 1 else 0)
     + exits k (fst (step st e)) es"

text \<open>
  A session for the examples: the local player \<open>me\<close> at the origin and the peer \<open>p2\<close>,
  first 150 away, that moves along the x axis.
\<close>

definition player_at :: "string \<Rightarrow> real \<Rightarrow> real \<Rightarrow> player" where
  "player_at n x y =
     \<lparr> p_id = Some n, p_username = Some n, p_x = Some x, p_y = Some y,
       p_avatar = Some ''default'', p_facing = Some ''south'', p_animationFrame = Some 0 \<rparr>"

definition roster :: inbound where
  "roster = JoinGame (Some True) (Some ''me'')
              (Some [(''me'', player_at ''me'' 0 0), (''p2'', player_at ''p2'' 150 0)]) (Some [])"

definition moved_to :: "real \<Rightarrow> event" where
  "moved_to x = Message (Some (PlayersMoved (Some [(''p2'', player_at ''p2'' x 0)])))"

text \<open>Connected and joined, the peer out of range.\<close>

definition joined :: client where
  "joined = fst (run (init 800 600) [SocketOpened, Message (Some roster)])"

text \<open>The peer has come to 90 and was greeted.\<close>

definition approached :: client where
  "approached = fst (run (init 800 600) [SocketOpened, Message (Some roster), moved_to 90])"

text \<open>Joined, then the socket closed, the peer still out of range.\<close>

definition offline :: client where
  "offline = fst (run (init 800 600) [SocketOpened, Message (Some roster), SocketClosed])"

text \<open>The greeted peer has left.\<close>

definition departed :: client where
  "departed = fst (step approached (Message (Some (PlayerLeft (Some ''p2'')))))"

section \<open>Properties\<close>

subsection \<open>Viewport\<close>

lemma clamp_max_min: "max lo (min v hi) = clamp v lo hi"
  by (simp add: clamp_def max_def min_def)

text \<open>
  C2. For a local position \<open>(x, y)\<close>, any world size and any canvas size, \<open>updateViewport\<close>
  sets the origin to \<open>clamp (x - width / 2) 0 (worldWidth - width)\<close> and likewise on the
  y axis, the bound 0 winning when the world is smaller than the canvas. In a world of
  2048 by 2048 seen through a canvas of 800 by 600 the positions (0, 0), (2048, 2048) and
  (1024, 1024) give the origins (0, 0), (1248, 1448) and (624, 724).
\<close>

theorem viewport_clamp:
  "viewport (updateViewport (st\<lparr> playerPosition := \<lparr> pos_x = Some x, pos_y = Some y \<rparr> \<rparr>)) =
     \<lparr> pos_x = Some (clamp (x - real (canvas_width st) / 2) 0
                      (worldWidth st - real (canvas_width st))),
       pos_y = Some (clamp (y - real (canvas_height st) / 2) 0
                      (worldHeight st - real (canvas_height st))) \<rparr>
   \<and> (let st0 = init 800 600 in
        viewport (updateViewport (st0\<lparr> playerPosition := \<lparr> pos_x = Some 0, pos_y = Some 0 \<rparr> \<rparr>))
          = \<lparr> pos_x = Some 0, pos_y = Some 0 \<rparr>
      \<and> viewport (updateViewport (st0\<lparr> playerPosition := \<lparr> pos_x = Some 2048, pos_y = Some 2048 \<rparr> \<rparr>))
          = \<lparr> pos_x = Some 1248, pos_y = Some 1448 \<rparr>
      \<and> viewport (updateViewport (st0\<lparr> playerPosition := \<lparr> pos_x = Some 1024, pos_y = Some 1024 \<rparr> \<rparr>))
          = \<lparr> pos_x = Some 624, pos_y = Some 724 \<rparr>)"
  by (simp add: updateViewport_def num_sub_def Math_min_def Math_max_def clamp_max_min Let_def init_def)
     (simp add: clamp_def)

subsection \<open>Frames and the movement invariant\<close>

lemma frameI: "st' = st\<lparr> greetedPlayers := G, playerProximityState := P \<rparr> \<Longrightarrow> frame st st'"
  unfolding frame_def by blast

lemma frame_refl: "frame st st"
  by (rule frameI[where G = "greetedPlayers st" and P = "playerProximityState st"]) simp

lemma frame_trans: "frame a b \<Longrightarrow> frame b c \<Longrightarrow> frame a c"
proof -
  assume "frame a b" and "frame b c"
  then obtain G P G' P' where
    b: "b = a\<lparr> greetedPlayers := G, playerProximityState := P \<rparr>" and
    c: "c = b\<lparr> greetedPlayers := G', playerProximityState := P' \<rparr>"
    unfolding frame_def by blast
  have "c = a\<lparr> greetedPlayers := G', playerProximityState := P' \<rparr>"
    by (simp add: b c)
  then show ?thesis by (rule frameI)
qed

lemma proximityBody_frame: "frame st (fst (proximityBody our k pl st))"
  unfolding proximityBody_def Let_def
  by (auto intro: frame_refl frameI[where G = "greetedPlayers st"] frameI)

lemma proximityLoop_frame: "frame st (fst (proximityLoop our es st))"
proof (induction es arbitrary: st)
  case Nil
  show ?case by (simp add: frame_refl)
next
  case (Cons e es)
  have "frame st (fst (proximityBody our (fst e) (snd e) st))"
    by (rule proximityBody_frame)
  moreover have "frame (fst (proximityBody our (fst e) (snd e) st))
          (fst (proximityLoop our es (fst (proximityBody our (fst e) (snd e) st))))"
    by (rule Cons.IH)
  ultimately show ?case
    by (simp add: split_def Let_def) (rule frame_trans)
qed

lemma draw_frame: "frame st (fst (draw st))"
  by (simp add: draw_def checkProximityGreetings_def proximityLoop_frame frame_refl split: option.splits)

lemma frame_input_state: "frame st st' \<Longrightarrow> input_state st' = input_state st"
  unfolding frame_def input_state_def by auto

lemma frame_socket: "frame st st' \<Longrightarrow> socket st' = socket st"
  unfolding frame_def by auto

lemma frame_players: "frame st st' \<Longrightarrow> players st' = players st"
  unfolding frame_def by auto

lemma frame_playerId: "frame st st' \<Longrightarrow> playerId st' = playerId st"
  unfolding frame_def by auto

lemma getPrimaryDirection_frame: "frame st st' \<Longrightarrow> getPrimaryDirection st' = getPrimaryDirection st"
  unfolding frame_def getPrimaryDirection_def by auto

lemma frame_movement_inv: "frame st st' \<Longrightarrow> movement_inv st' = movement_inv st"
proof -
  assume f: "frame st st'"
  have "activeKeys st' = activeKeys st" "nextHandle st' = nextHandle st" "intervals st' = intervals st"
     "movementInterval st' = movementInterval st" "isMoving st' = isMoving st"
    using f unfolding frame_def by auto
  then show ?thesis
    unfolding movement_inv_def by (simp add: getPrimaryDirection_frame[OF f])
qed

lemma getPrimaryDirection_spec: "getPrimaryDirection st = primaryDirection (activeKeys st)"
  by (simp add: getPrimaryDirection_def primaryDirection_def)

lemma primaryDirection_Stop: "K \<subseteq> set arrowKeys \<Longrightarrow> K \<noteq> {} \<Longrightarrow> primaryDirection K \<noteq> Stop"
  by (auto simp: primaryDirection_def arrowKeys_def)

lemma sendMoveCommand_cong: "socket st' = socket st \<Longrightarrow> sendMoveCommand st' d = sendMoveCommand st d"
  by (simp add: sendMoveCommand_def socket_open_def)

lemma startContinuousMovement_moving:
  assumes "getPrimaryDirection st \<noteq> Stop"
  shows "startContinuousMovement st =
     (st\<lparr> intervals :=
            filter (\<lambda>t. \<not> (truthy_handle (movementInterval st) \<and> fst t = the (movementInterval st)))
              (intervals st) @ [(nextHandle st, getPrimaryDirection st)],
          nextHandle := Suc (nextHandle st),
          isMoving := True,
          movementInterval := Some (nextHandle st) \<rparr>,
      [sendMoveCommand st (getPrimaryDirection st)])"
proof (cases "truthy_handle (movementInterval st)")
  case True
  have d: "getPrimaryDirection (clearInterval (the (movementInterval st)) st) = getPrimaryDirection st"
    by (simp add: getPrimaryDirection_def clearInterval_def)
  have s: "sendMoveCommand (clearInterval (the (movementInterval st)) st) = sendMoveCommand st"
    by (rule ext) (simp add: sendMoveCommand_def socket_open_def clearInterval_def)
  show ?thesis
    using assms True
    by (simp add: startContinuousMovement_def d s Let_def) (simp add: setInterval_def clearInterval_def)
next
  case False
  show ?thesis
    using assms False
    by (simp add: startContinuousMovement_def Let_def setInterval_def)
qed

lemma stopContinuousMovement_eq:
  "stopContinuousMovement st =
     (st\<lparr> intervals :=
            filter (\<lambda>t. \<not> (truthy_handle (movementInterval st) \<and> fst t = the (movementInterval st)))
              (intervals st),
          movementInterval := (if truthy_handle (movementInterval st) then None else movementInterval st),
          isMoving := False \<rparr>,
      if isMoving st then [sendMoveCommand st Stop] else [])"
  by (simp add: stopContinuousMovement_def Let_def clearInterval_def sendMoveCommand_def socket_open_def)

lemma movement_inv_cong: "input_state st' = input_state st \<Longrightarrow> movement_inv st' = movement_inv st"
  unfolding movement_inv_def input_state_def getPrimaryDirection_def by simp

lemma movement_inv_init: "movement_inv (init w h)"
  by (simp add: movement_inv_def init_def)

lemma movement_inv_start:
  assumes "movement_inv st" "K \<subseteq> set arrowKeys" "K \<noteq> {}"
  shows "movement_inv (fst (startContinuousMovement (st\<lparr> activeKeys := K \<rparr>)))"
proof -
  have d: "getPrimaryDirection (st\<lparr> activeKeys := K \<rparr>) \<noteq> Stop"
    using assms(2,3) by (simp add: getPrimaryDirection_spec primaryDirection_Stop)
  have i: "intervals st = [] \<or> (\<exists>h d. movementInterval st = Some h \<and> 0 < h \<and> intervals st = [(h, d)])"
    using assms(1) unfolding movement_inv_def by (auto split: if_splits)
  have n: "0 < nextHandle st"
    using assms(1) unfolding movement_inv_def by simp
  from i show ?thesis
  proof
    assume "intervals st = []"
    then show ?thesis
      using assms(2,3) n
      by (simp add: startContinuousMovement_moving[OF d] movement_inv_def getPrimaryDirection_spec)
  next
    assume "\<exists>h d. movementInterval st = Some h \<and> 0 < h \<and> intervals st = [(h, d)]"
    then obtain h d where "movementInterval st = Some h" "0 < h" "intervals st = [(h, d)]"
      by blast
    then show ?thesis
      using assms(2,3) n
      by (simp add: startContinuousMovement_moving[OF d] movement_inv_def getPrimaryDirection_spec
          truthy_handle_def)
  qed
qed

lemma movement_inv_stop:
  assumes "movement_inv st"
  shows "movement_inv (fst (stopContinuousMovement (st\<lparr> activeKeys := {} \<rparr>)))"
proof -
  have i: "intervals st = [] \<and> movementInterval st = None
       \<or> (\<exists>h d. movementInterval st = Some h \<and> 0 < h \<and> intervals st = [(h, d)])"
    using assms(1) unfolding movement_inv_def by (auto split: if_splits)
  have n: "0 < nextHandle st"
    using assms(1) unfolding movement_inv_def by simp
  from i show ?thesis
  proof
    assume "intervals st = [] \<and> movementInterval st = None"
    then show ?thesis
      using n by (simp add: stopContinuousMovement_eq movement_inv_def truthy_handle_def)
  next
    assume "\<exists>h d. movementInterval st = Some h \<and> 0 < h \<and> intervals st = [(h, d)]"
    then obtain h d where "movementInterval st = Some h" "0 < h" "intervals st = [(h, d)]"
      by blast
    then show ?thesis
      using n by (simp add: stopContinuousMovement_eq movement_inv_def truthy_handle_def)
  qed
qed

lemma movement_inv_handleKeyDown:
  assumes "movement_inv st"
  shows "movement_inv (fst (handleKeyDown st code))"
proof (cases "code \<in> set arrowKeys")
  case True
  have "insert code (activeKeys st) \<subseteq> set arrowKeys"
    using True assms unfolding movement_inv_def by simp
  then show ?thesis
    using True by (simp add: handleKeyDown_def movement_inv_start[OF assms])
next
  case False
  then show ?thesis using assms by (simp add: handleKeyDown_def)
qed

lemma movement_inv_handleKeyUp:
  assumes "movement_inv st"
  shows "movement_inv (fst (handleKeyUp st code))"
proof (cases "code \<in> set arrowKeys")
  case True
  have sub: "activeKeys st - {code} \<subseteq> set arrowKeys"
    using assms unfolding movement_inv_def by auto
  show ?thesis
  proof (cases "activeKeys st - {code} = {}")
    case e: True
    show ?thesis
      using True movement_inv_stop[OF assms]
      by (simp add: handleKeyUp_def Let_def e)
  next
    case ne: False
    have ne': "\<not> activeKeys st \<subseteq> {code}"
      using ne by auto
    show ?thesis
      using True movement_inv_start[OF assms sub ne]
      by (simp add: handleKeyUp_def Let_def ne')
  qed
next
  case False
  then show ?thesis using assms by (simp add: handleKeyUp_def)
qed

lemma updateViewport_input: "input_state (updateViewport st) = input_state st"
  by (simp add: updateViewport_def input_state_def Let_def)

lemma store_player_input: "input_state (store_player e st) = input_state st"
  by (simp add: store_player_def input_state_def)

lemma store_avatar_input: "input_state (store_avatar e st) = input_state st"
  by (simp add: store_avatar_def input_state_def)

lemma moved_entry_input: "input_state (moved_entry e st) = input_state st"
  by (simp add: moved_entry_def Let_def updateViewport_input store_player_input)
     (simp add: input_state_def store_player_def)

lemma fold_input:
  "(\<And>e st. input_state (f e st) = input_state st) \<Longrightarrow> input_state (fold f es st) = input_state st"
  by (induction es arbitrary: st) simp_all

lemma draw_input: "input_state (fst (draw st)) = input_state st"
  by (rule frame_input_state) (rule draw_frame)

lemma handleJoinGame_input:
  "input_state (fst (snd (handleJoinGame st success pid ps avs))) = input_state st"
proof -
  have a: "\<And>s. input_state (s\<lparr> playerId := key_of pid \<rparr>) = input_state s"
    by (simp add: input_state_def)
  have b: "\<And>s p. input_state (s\<lparr> playerPosition := p \<rparr>) = input_state s"
    by (simp add: input_state_def)
  show ?thesis
    by (simp add: handleJoinGame_def Let_def split_def a b draw_input updateViewport_input
        fold_input[of store_player, OF store_player_input]
        fold_input[of store_avatar, OF store_avatar_input] split: option.splits)
qed

lemma handlePlayersMoved_input:
  "input_state (fst (snd (handlePlayersMoved st ps))) = input_state st"
  by (simp add: handlePlayersMoved_def Let_def split_def draw_input
        fold_input[of moved_entry, OF moved_entry_input] split: option.splits)

lemma handlePlayerJoined_input:
  "input_state (fst (snd (handlePlayerJoined st p a))) = input_state st"
proof -
  have a: "\<And>s x. input_state (s\<lparr> players := x \<rparr>) = input_state s"
    by (simp add: input_state_def)
  have b: "\<And>s x. input_state (s\<lparr> avatars := x \<rparr>) = input_state s"
    by (simp add: input_state_def)
  show ?thesis
    by (simp add: handlePlayerJoined_def Let_def split_def a b draw_input split: option.splits)
qed

lemma handlePlayerLeft_input:
  "input_state (fst (snd (handlePlayerLeft st pid))) = input_state st"
proof -
  have a: "\<And>s x. input_state (s\<lparr> players := x \<rparr>) = input_state s"
    by (simp add: input_state_def)
  have b: "\<And>s x. input_state (s\<lparr> greetedPlayers := x \<rparr>) = input_state s"
    by (simp add: input_state_def)
  have c: "\<And>s x. input_state (s\<lparr> playerProximityState := x \<rparr>) = input_state s"
    by (simp add: input_state_def)
  show ?thesis
    by (simp add: handlePlayerLeft_def Let_def split_def a b c draw_input)
qed

lemma handleMessage_input:
  "input_state (fst (snd (handleMessage st m))) = input_state st"
  by (cases m)
     (simp_all add: handleMessage_def split_def Let_def handleJoinGame_input handlePlayersMoved_input
        handlePlayerJoined_input handlePlayerLeft_input)

lemma onmessage_input: "input_state (fst (onmessage st parsed)) = input_state st"
proof (cases parsed)
  case None
  then show ?thesis by (simp add: onmessage_def)
next
  case (Some m)
  obtain c st1 out where h: "handleMessage st m = (c, st1, out)"
    by (cases "handleMessage st m") auto
  have "input_state st1 = input_state st"
    using handleMessage_input[of st m] h by simp
  then show ?thesis
    using Some h by (cases c) (simp_all add: onmessage_def)
qed

lemma step_KeyDown_state: "fst (step st (KeyDown code key)) = fst (handleKeyDown st code)"
  by (simp add: split_def Let_def)

lemma run_Cons_state: "fst (run st (e # es)) = fst (run (fst (step st e)) es)"
  by (simp add: split_def Let_def)

lemma run_Cons_effects: "snd (run st (e # es)) = snd (step st e) @ snd (run (fst (step st e)) es)"
  by (simp add: split_def Let_def)

lemma movement_inv_step: "movement_inv st \<Longrightarrow> movement_inv (fst (step st ev))"
proof (cases ev)
  case (Message parsed)
  assume "movement_inv st"
  then show ?thesis
    using Message movement_inv_cong[OF onmessage_input[of st parsed]] by simp
next
  case (KeyDown code key)
  assume "movement_inv st"
  then have "movement_inv (fst (handleKeyDown st code))"
    by (rule movement_inv_handleKeyDown)
  then show ?thesis
    unfolding KeyDown step_KeyDown_state .
next
  case (KeyUp code)
  assume "movement_inv st"
  then show ?thesis
    using KeyUp movement_inv_handleKeyUp[of st code] by simp
next
  case (IntervalFires h)
  assume "movement_inv st"
  then show ?thesis
    using IntervalFires by (simp add: intervalFires_def split: option.splits)
next
  case (Resize w h)
  assume a: "movement_inv st"
  have "input_state (st\<lparr> canvas_width := w, canvas_height := h \<rparr>) = input_state st"
    by (simp add: input_state_def)
  then have "input_state (fst (draw (st\<lparr> canvas_width := w, canvas_height := h \<rparr>))) = input_state st"
    by (simp add: draw_input)
  then have "movement_inv (fst (draw (st\<lparr> canvas_width := w, canvas_height := h \<rparr>))) = movement_inv st"
    by (rule movement_inv_cong)
  then show ?thesis
    using Resize a by simp
next
  case WorldImageLoaded
  assume "movement_inv st"
  then show ?thesis
    using WorldImageLoaded movement_inv_cong[OF draw_input[of st]] by simp
next
  case SocketOpened
  assume a: "movement_inv st"
  have "\<And>v. input_state (st\<lparr> socket := v \<rparr>) = input_state st"
    by (simp add: input_state_def)
  then have "\<And>v. movement_inv (st\<lparr> socket := v \<rparr>) = movement_inv st"
    by (rule movement_inv_cong)
  then show ?thesis
    using SocketOpened a by simp
next
  case SocketClosed
  assume a: "movement_inv st"
  have "\<And>v. input_state (st\<lparr> socket := v \<rparr>) = input_state st"
    by (simp add: input_state_def)
  then have "\<And>v. movement_inv (st\<lparr> socket := v \<rparr>) = movement_inv st"
    by (rule movement_inv_cong)
  then show ?thesis
    using SocketClosed a by simp
next
  case SocketFailed
  assume "movement_inv st"
  then show ?thesis
    using SocketFailed by simp
qed

lemma movement_inv_run: "movement_inv st \<Longrightarrow> movement_inv (fst (run st evs))"
proof (induction evs arbitrary: st)
  case Nil
  then show ?case by simp
next
  case (Cons e es)
  have "movement_inv (fst (step st e))"
    using Cons.prems by (rule movement_inv_step)
  then have "movement_inv (fst (run (fst (step st e)) es))"
    by (rule Cons.IH)
  then show ?case unfolding run_Cons_state .
qed

lemma movement_inv_reachable: "movement_inv (fst (run (init w h) evs))"
  by (rule movement_inv_run) (rule movement_inv_init)

lemma holding_up_eq:
  "holding_up = (init 800 600)\<lparr> socket := Some OPEN, activeKeys := {''ArrowUp''}, isMoving := True,
      movementInterval := Some 1, intervals := [(1, Up)], nextHandle := 2 \<rparr>"
  by (simp add: holding_up_def init_def handleKeyDown_def arrowKeys_def startContinuousMovement_def
      truthy_handle_def getPrimaryDirection_def Let_def setInterval_def)

text \<open>
  C3, as stated, fails: on \<open>holding_up\<close> the up arrow is held and its interval resends
  \<open>Up\<close>; a second key-down of the up arrow (the key repeating) recomputes the same
  direction, and still a move command is sent at once and the interval 1 is replaced by
  the interval 2.
\<close>

theorem key_down_same_direction_counterexample:
  "getPrimaryDirection (holding_up\<lparr> activeKeys := insert ''ArrowUp'' (activeKeys holding_up) \<rparr>)
      = sentDirection holding_up
   \<and> snd (step holding_up (KeyDown ''ArrowUp'' ''ArrowUp''))
      = [MoveCommand Up [SocketSend (Move Up), ConsoleLog ''Sent move command:'']]
   \<and> intervals holding_up = [(1, Up)]
   \<and> intervals (fst (step holding_up (KeyDown ''ArrowUp'' ''ArrowUp''))) = [(2, Up)]"
  by (simp add: holding_up_eq init_def handleKeyDown_def arrowKeys_def startContinuousMovement_def
      truthy_handle_def getPrimaryDirection_def Let_def setInterval_def clearInterval_def
      sentDirection_def sendMoveCommand_def socket_open_def)

text \<open>
  C3, amended. On every key-down of an arrow key the recomputed primary direction is not
  \<open>stop\<close>, exactly one immediate move command for it is emitted, the interval whose
  handle the client held is cancelled and a new interval for that direction is started,
  whether or not the direction differs from the one being sent.
\<close>

theorem key_down_resends:
  assumes "code \<in> set arrowKeys"
  shows "getPrimaryDirection (st\<lparr> activeKeys := insert code (activeKeys st) \<rparr>) \<noteq> Stop
    \<and> snd (handleKeyDown st code)
        = [sendMoveCommand st (getPrimaryDirection (st\<lparr> activeKeys := insert code (activeKeys st) \<rparr>))]
    \<and> movementInterval (fst (handleKeyDown st code)) = Some (nextHandle st)
    \<and> intervals (fst (handleKeyDown st code))
        = filter (\<lambda>t. \<not> (truthy_handle (movementInterval st) \<and> fst t = the (movementInterval st)))
            (intervals st)
          @ [(nextHandle st, getPrimaryDirection (st\<lparr> activeKeys := insert code (activeKeys st) \<rparr>))]"
proof -
  have d: "getPrimaryDirection (st\<lparr> activeKeys := insert code (activeKeys st) \<rparr>) \<noteq> Stop"
    using assms by (auto simp: getPrimaryDirection_def arrowKeys_def)
  have s: "sendMoveCommand (st\<lparr> activeKeys := insert code (activeKeys st) \<rparr>) = sendMoveCommand st"
    by (rule ext) (simp add: sendMoveCommand_def socket_open_def)
  show ?thesis
    using assms d by (simp add: handleKeyDown_def startContinuousMovement_moving[OF d] s)
qed

theorem key_down_resends_witness:
  "''ArrowUp'' \<in> set arrowKeys
   \<and> snd (handleKeyDown holding_up ''ArrowUp'') = [sendMoveCommand holding_up Up]
   \<and> movementInterval (fst (handleKeyDown holding_up ''ArrowUp'')) = Some 2
   \<and> intervals (fst (handleKeyDown holding_up ''ArrowUp'')) = [(2, Up)]"
proof -
  have a: "''ArrowUp'' \<in> set arrowKeys"
    by (simp add: arrowKeys_def)
  have g: "getPrimaryDirection (holding_up\<lparr> activeKeys := insert ''ArrowUp'' (activeKeys holding_up) \<rparr>) = Up"
    by (simp add: getPrimaryDirection_def)
  show ?thesis
    using key_down_resends[OF a, of holding_up] a
    by (simp add: g) (simp add: holding_up_eq init_def truthy_handle_def)
qed

lemma startContinuousMovement_activeKeys: "activeKeys (fst (startContinuousMovement st)) = activeKeys st"
  by (simp add: startContinuousMovement_def Let_def split_def setInterval_def clearInterval_def)

lemma handleKeyDown_activeKeys:
  "activeKeys (fst (handleKeyDown st c)) = activeKeys st \<union> ({c} \<inter> set arrowKeys)"
  by (simp add: handleKeyDown_def startContinuousMovement_activeKeys)

lemma presses_activeKeys:
  "activeKeys (fst (run st (map (\<lambda>c. KeyDown c c) cs))) = activeKeys st \<union> (set cs \<inter> set arrowKeys)"
proof (induction cs arbitrary: st)
  case Nil
  show ?case by simp
next
  case (Cons c cs)
  have "activeKeys (fst (run st (map (\<lambda>c. KeyDown c c) (c # cs))))
      = activeKeys (fst (handleKeyDown st c)) \<union> (set cs \<inter> set arrowKeys)"
    unfolding list.map run_Cons_state step_KeyDown_state by (rule Cons.IH)
  then show ?case
    unfolding handleKeyDown_activeKeys by auto
qed

lemma reachable_timer:
  "(activeKeys (fst (run (init w h) evs)) = {} \<and> intervals (fst (run (init w h) evs)) = []
      \<and> movementInterval (fst (run (init w h) evs)) = None \<and> \<not> isMoving (fst (run (init w h) evs)))
   \<or> (activeKeys (fst (run (init w h) evs)) \<noteq> {} \<and> isMoving (fst (run (init w h) evs))
      \<and> (\<exists>t d. 0 < t \<and> t < nextHandle (fst (run (init w h) evs))
            \<and> movementInterval (fst (run (init w h) evs)) = Some t
            \<and> intervals (fst (run (init w h) evs)) = [(t, d)]))"
  using movement_inv_reachable[of w h evs] unfolding movement_inv_def
  by (cases "activeKeys (fst (run (init w h) evs)) = {}") auto

lemma reachable_keys: "activeKeys (fst (run (init w h) evs)) \<subseteq> set arrowKeys"
  using movement_inv_reachable[of w h evs] unfolding movement_inv_def by simp

subsection \<open>Direction priority\<close>

text \<open>
  C5. The direction is the first held key in the order up, down, left, right, and
  \<open>stop\<close> for no key; after any presses it depends on the set of pressed keys only, not
  on their order. Holding down and left gives \<open>down\<close>; releasing down with left still
  held emits \<open>left\<close>; releasing the last held key, in any state the client can reach,
  emits exactly one \<open>stop\<close> command and leaves no interval.
\<close>

theorem direction_priority:
  "getPrimaryDirection st = primaryDirection (activeKeys st)
   \<and> getPrimaryDirection (fst (run st (map (\<lambda>c. KeyDown c c) cs)))
       = primaryDirection (activeKeys st \<union> (set cs \<inter> set arrowKeys))
   \<and> getPrimaryDirection (st\<lparr> activeKeys := {''ArrowDown'', ''ArrowLeft''} \<rparr>) = Down
   \<and> snd (handleKeyUp (st\<lparr> activeKeys := {''ArrowDown'', ''ArrowLeft''} \<rparr>) ''ArrowDown'')
       = [sendMoveCommand st Left]
   \<and> (activeKeys (fst (run (init w h) evs)) = {code} \<longrightarrow>
        snd (handleKeyUp (fst (run (init w h) evs)) code)
          = [sendMoveCommand (fst (run (init w h) evs)) Stop]
        \<and> intervals (fst (handleKeyUp (fst (run (init w h) evs)) code)) = []
        \<and> movementInterval (fst (handleKeyUp (fst (run (init w h) evs)) code)) = None)"
proof -
  have 1: "getPrimaryDirection st = primaryDirection (activeKeys st)"
    by (rule getPrimaryDirection_spec)
  have 2: "getPrimaryDirection (fst (run st (map (\<lambda>c. KeyDown c c) cs)))
       = primaryDirection (activeKeys st \<union> (set cs \<inter> set arrowKeys))"
    by (simp only: getPrimaryDirection_spec presses_activeKeys)
  have 3: "getPrimaryDirection (st\<lparr> activeKeys := {''ArrowDown'', ''ArrowLeft''} \<rparr>) = Down"
    by (simp add: getPrimaryDirection_def)
  have d: "getPrimaryDirection (st\<lparr> activeKeys := {''ArrowLeft''} \<rparr>) = Left"
    by (simp add: getPrimaryDirection_def)
  then have d': "getPrimaryDirection (st\<lparr> activeKeys := {''ArrowLeft''} \<rparr>) \<noteq> Stop"
    by simp
  have k: "{''ArrowDown'', ''ArrowLeft''} - {''ArrowDown''} = {''ArrowLeft''}"
    by auto
  have s: "\<And>K. sendMoveCommand (st\<lparr> activeKeys := K \<rparr>) = sendMoveCommand st"
    by (rule ext) (simp add: sendMoveCommand_def socket_open_def)
  have 4: "snd (handleKeyUp (st\<lparr> activeKeys := {''ArrowDown'', ''ArrowLeft''} \<rparr>) ''ArrowDown'')
       = [sendMoveCommand st Left]"
    by (simp add: handleKeyUp_def arrowKeys_def Let_def k startContinuousMovement_moving[OF d'] d s)
  have 5: "snd (handleKeyUp (fst (run (init w h) evs)) code)
          = [sendMoveCommand (fst (run (init w h) evs)) Stop]
        \<and> intervals (fst (handleKeyUp (fst (run (init w h) evs)) code)) = []
        \<and> movementInterval (fst (handleKeyUp (fst (run (init w h) evs)) code)) = None"
    if held: "activeKeys (fst (run (init w h) evs)) = {code}"
  proof -
    have c: "code \<in> set arrowKeys"
      using reachable_keys[of w h evs] held by simp
    obtain t d where t: "0 < t" "movementInterval (fst (run (init w h) evs)) = Some t"
        "intervals (fst (run (init w h) evs)) = [(t, d)]" "isMoving (fst (run (init w h) evs))"
      using reachable_timer[of w h evs] held by auto
    have s': "\<And>K. sendMoveCommand (fst (run (init w h) evs)\<lparr> activeKeys := K \<rparr>)
        = sendMoveCommand (fst (run (init w h) evs))"
      by (rule ext) (simp add: sendMoveCommand_def socket_open_def)
    show ?thesis
      using c t by (simp add: handleKeyUp_def Let_def held stopContinuousMovement_eq truthy_handle_def s')
  qed
  show ?thesis
    using 1 2 3 4 5 by blast
qed

lemma holding_left_eq:
  "holding_left = (init 800 600)\<lparr> activeKeys := {''ArrowLeft''}, isMoving := True,
      movementInterval := Some 1, intervals := [(1, Left)], nextHandle := 2 \<rparr>"
  by (simp add: holding_left_def init_def handleKeyDown_def arrowKeys_def startContinuousMovement_def
      truthy_handle_def getPrimaryDirection_def Let_def setInterval_def)

theorem direction_priority_witness:
  "activeKeys holding_left = {''ArrowLeft''}
   \<and> snd (handleKeyUp holding_left ''ArrowLeft'') = [MoveCommand Stop []]
   \<and> intervals (fst (handleKeyUp holding_left ''ArrowLeft'')) = []
   \<and> movementInterval (fst (handleKeyUp holding_left ''ArrowLeft'')) = None"
proof -
  have a: "activeKeys holding_left = {''ArrowLeft''}"
    by (simp add: holding_left_eq)
  have s: "sendMoveCommand holding_left Stop = MoveCommand Stop []"
    by (simp add: holding_left_eq sendMoveCommand_def socket_open_def init_def)
  note t = direction_priority[where w = 800 and h = 600 and evs = "[KeyDown ''ArrowLeft'' ''ArrowLeft'']"
        and code = "''ArrowLeft''", folded holding_left_def]
  show ?thesis
    using t a s by simp
qed

subsection \<open>The retransmission timer\<close>

text \<open>
  C8. In every state the client can reach at most one interval is active, and it is the
  one whose handle the client holds; a key-down or key-up of an arrow key leaves none of
  the intervals that were active before it.
\<close>

theorem at_most_one_timer:
  "length (intervals (fst (run (init w h) evs))) \<le> 1
   \<and> map fst (intervals (fst (run (init w h) evs)))
       = (case movementInterval (fst (run (init w h) evs)) of None \<Rightarrow> [] | Some t \<Rightarrow> [t])
   \<and> (code \<in> set arrowKeys \<longrightarrow>
        set (map fst (intervals (fst (run (init w h) evs))))
          \<inter> set (map fst (intervals (fst (handleKeyDown (fst (run (init w h) evs)) code)))) = {}
        \<and> set (map fst (intervals (fst (run (init w h) evs))))
          \<inter> set (map fst (intervals (fst (handleKeyUp (fst (run (init w h) evs)) code)))) = {})"
proof -
  have 1: "length (intervals (fst (run (init w h) evs))) \<le> 1"
    using reachable_timer[of w h evs] by auto
  have 2: "map fst (intervals (fst (run (init w h) evs)))
       = (case movementInterval (fst (run (init w h) evs)) of None \<Rightarrow> [] | Some t \<Rightarrow> [t])"
    using reachable_timer[of w h evs] by auto
  have 3: "set (map fst (intervals (fst (run (init w h) evs))))
          \<inter> set (map fst (intervals (fst (handleKeyDown (fst (run (init w h) evs)) code)))) = {}"
    if c: "code \<in> set arrowKeys"
  proof -
    have d: "getPrimaryDirection (fst (run (init w h) evs)
        \<lparr> activeKeys := insert code (activeKeys (fst (run (init w h) evs))) \<rparr>) \<noteq> Stop"
      using c by (auto simp: getPrimaryDirection_def arrowKeys_def)
    show ?thesis
      using reachable_timer[of w h evs] c
      by (auto simp: handleKeyDown_def startContinuousMovement_moving[OF d] truthy_handle_def)
  qed
  have 4: "set (map fst (intervals (fst (run (init w h) evs))))
          \<inter> set (map fst (intervals (fst (handleKeyUp (fst (run (init w h) evs)) code)))) = {}"
    if c: "code \<in> set arrowKeys"
  proof (cases "activeKeys (fst (run (init w h) evs)) - {code} = {}")
    case True
    show ?thesis
      using reachable_timer[of w h evs] c
      by (auto simp: handleKeyUp_def Let_def True stopContinuousMovement_eq truthy_handle_def)
  next
    case False
    have sub: "activeKeys (fst (run (init w h) evs)) - {code} \<subseteq> set arrowKeys"
      using reachable_keys[of w h evs] by auto
    have d: "getPrimaryDirection (fst (run (init w h) evs)
        \<lparr> activeKeys := activeKeys (fst (run (init w h) evs)) - {code} \<rparr>) \<noteq> Stop"
      using primaryDirection_Stop[OF sub False] by (simp add: getPrimaryDirection_spec)
    have ne': "\<not> activeKeys (fst (run (init w h) evs)) \<subseteq> {code}"
      using False by auto
    show ?thesis
      using reachable_timer[of w h evs] c ne'
      by (auto simp: handleKeyUp_def Let_def startContinuousMovement_moving[OF d] truthy_handle_def)
  qed
  show ?thesis
    using 1 2 3 4 by blast
qed

theorem at_most_one_timer_witness:
  "''ArrowLeft'' \<in> set arrowKeys
   \<and> intervals holding_up = [(1, Up)]
   \<and> intervals (fst (handleKeyDown holding_up ''ArrowLeft'')) = [(2, Up)]
   \<and> set (map fst (intervals holding_up))
          \<inter> set (map fst (intervals (fst (handleKeyDown holding_up ''ArrowLeft'')))) = {}"
proof -
  have a: "''ArrowLeft'' \<in> set arrowKeys"
    by (simp add: arrowKeys_def)
  have i: "intervals holding_up = [(1, Up)]"
    by (simp add: holding_up_eq)
  have j: "intervals (fst (handleKeyDown holding_up ''ArrowLeft'')) = [(2, Up)]"
    by (simp add: holding_up_eq init_def handleKeyDown_def arrowKeys_def startContinuousMovement_def
      truthy_handle_def getPrimaryDirection_def Let_def setInterval_def clearInterval_def)
  note t = at_most_one_timer[where w = 800 and h = 600
        and evs = "[SocketOpened, KeyDown ''ArrowUp'' ''ArrowUp'']" and code = "''ArrowLeft''",
        folded holding_up_def]
  have "set (map fst (intervals holding_up))
          \<inter> set (map fst (intervals (fst (handleKeyDown holding_up ''ArrowLeft'')))) = {}"
    using t a by blast
  then show ?thesis
    using a i j by blast
qed

subsection \<open>Merging player updates\<close>

lemma fold_update_Cons:
  "fold (\<lambda>e. AList.update (fst e) (snd e)) es ((k0, v0) # m) =
     (k0, case map_of (rev es) k0 of None \<Rightarrow> v0 | Some v \<Rightarrow> v)
       # fold (\<lambda>e. AList.update (fst e) (snd e)) (filter (\<lambda>e. fst e \<noteq> k0) es) m"
proof (induction es arbitrary: v0 m)
  case Nil
  show ?case by simp
next
  case (Cons e es)
  show ?case
  proof (cases "fst e = k0")
    case True
    then show ?thesis
      by (simp add: Cons.IH map_add_def split: option.splits)
  next
    case False
    then show ?thesis
      by (simp add: Cons.IH map_add_def split: option.splits)
  qed
qed

lemma fold_update_idem:
  "fold (\<lambda>e. AList.update (fst e) (snd e)) es (fold (\<lambda>e. AList.update (fst e) (snd e)) es m)
     = fold (\<lambda>e. AList.update (fst e) (snd e)) es m"
proof (induction "length es + length m" arbitrary: es m rule: less_induct)
  case less
  show ?case
  proof (cases m)
    case (Cons p m')
    obtain k0 v0 where p: "p = (k0, v0)" by (cases p)
    have "length (filter (\<lambda>e. fst e \<noteq> k0) es) + length m' < length es + length m"
      using Cons by (simp add: less_Suc_eq_le)
    then have ih: "fold (\<lambda>e. AList.update (fst e) (snd e)) (filter (\<lambda>e. fst e \<noteq> k0) es)
          (fold (\<lambda>e. AList.update (fst e) (snd e)) (filter (\<lambda>e. fst e \<noteq> k0) es) m')
        = fold (\<lambda>e. AList.update (fst e) (snd e)) (filter (\<lambda>e. fst e \<noteq> k0) es) m'"
      by (rule less.hyps)
    show ?thesis
      unfolding Cons p fold_update_Cons ih by (simp split: option.splits)
  next
    case Nil
    show ?thesis
    proof (cases es)
      case Nil
      then show ?thesis by simp
    next
      case (Cons e es')
      obtain k v where e: "e = (k, v)" by (cases e)
      let ?U = "fold (\<lambda>e. AList.update (fst e) (snd e))"
      let ?f = "filter (\<lambda>x. fst x \<noteq> k) es'"
      let ?v1 = "case map_of (rev es') k of None \<Rightarrow> v | Some w \<Rightarrow> w"
      have "length ?f + length ([] :: ('a \<times> 'b) list) < length es + length m"
        using Cons by (simp add: less_Suc_eq_le trans_le_add1)
      then have ih: "?U ?f (?U ?f []) = ?U ?f []"
        by (rule less.hyps)
      have once: "?U es [] = (k, ?v1) # ?U ?f []"
        unfolding Cons e using fold_update_Cons[of es' k v "[]"] by simp
      have flt: "filter (\<lambda>x. fst x \<noteq> k) es = ?f"
        by (simp add: Cons e)
      have val: "(case map_of (rev es) k of None \<Rightarrow> ?v1 | Some w \<Rightarrow> w) = ?v1"
        by (simp add: Cons e map_add_def split: option.splits)
      have "?U es ((k, ?v1) # ?U ?f []) = (k, ?v1) # ?U ?f (?U ?f [])"
        unfolding fold_update_Cons[of es k ?v1 "?U ?f []"] flt val ..
      then show ?thesis
        unfolding Nil once ih .
    qed
  qed
qed

lemma players_fold_moved_entry:
  "players (fold moved_entry pl st)
     = fold (\<lambda>e. AList.update (fst e) (snd e)) (map (\<lambda>e. (KString (fst e), snd e)) pl) (players st)"
proof (induction pl arbitrary: st)
  case Nil
  show ?case by simp
next
  case (Cons e pl)
  have "players (moved_entry e st) = AList.update (KString (fst e)) (snd e) (players st)"
    by (simp add: moved_entry_def Let_def store_player_def map_set_def updateViewport_def)
  then show ?case
    by (simp add: Cons.IH)
qed

lemma handlePlayersMoved_players:
  "players (fst (snd (handlePlayersMoved st ps)))
     = (case ps of None \<Rightarrow> players st
        | Some pl \<Rightarrow> fold (\<lambda>e. AList.update (fst e) (snd e))
                      (map (\<lambda>e. (KString (fst e), snd e)) pl) (players st))"
  by (simp add: handlePlayersMoved_def split_def Let_def frame_players[OF draw_frame]
      players_fold_moved_entry split: option.splits)

text \<open>
  C9. Applying the same \<open>players_moved\<close> record twice leaves the player registry as
  applying it once does, whatever the registry and the record are.
\<close>

theorem merge_idempotent:
  "players (fst (snd (handlePlayersMoved (fst (snd (handlePlayersMoved st ps))) ps)))
     = players (fst (snd (handlePlayersMoved st ps)))
   \<and> players (fst (onmessage (fst (onmessage st (Some (PlayersMoved ps)))) (Some (PlayersMoved ps))))
     = players (fst (onmessage st (Some (PlayersMoved ps))))"
proof -
  have 1: "players (fst (snd (handlePlayersMoved (fst (snd (handlePlayersMoved st ps))) ps)))
     = players (fst (snd (handlePlayersMoved st ps)))"
    by (cases ps) (simp_all add: handlePlayersMoved_players fold_update_idem)
  have o: "\<And>s. fst (onmessage s (Some (PlayersMoved ps))) = fst (snd (handlePlayersMoved s ps))"
  proof -
    fix s
    obtain c s1 out where h: "handlePlayersMoved s ps = (c, s1, out)"
      by (cases "handlePlayersMoved s ps") auto
    show "fst (onmessage s (Some (PlayersMoved ps))) = fst (snd (handlePlayersMoved s ps))"
      by (cases c) (simp_all add: onmessage_def handleMessage_def h)
  qed
  show ?thesis
    unfolding o using 1 by simp
qed

subsection \<open>Malformed messages\<close>

text \<open>
  C7, as stated, fails: a successful \<open>join_game\<close> reply without its \<open>players\<close> field
  is malformed, and processing it on the initial client sets the local identity before
  the handler throws; the client is no longer the one it was.
\<close>

theorem malformed_join_counterexample:
  "playerId (init 800 600) = KNull
   \<and> playerId (fst (onmessage (init 800 600) (Some roster_incomplete))) = KString ''p1''
   \<and> fst (onmessage (init 800 600) (Some roster_incomplete)) \<noteq> init 800 600"
proof -
  have 1: "playerId (init 800 600) = KNull"
    by (simp add: init_def)
  have 2: "playerId (fst (onmessage (init 800 600) (Some roster_incomplete))) = KString ''p1''"
    by (simp add: onmessage_def handleMessage_def handleJoinGame_def roster_incomplete_def key_of_def)
  have "playerId (fst (onmessage (init 800 600) (Some roster_incomplete))) \<noteq> playerId (init 800 600)"
    unfolding 1 2 by simp
  then have 3: "fst (onmessage (init 800 600) (Some roster_incomplete)) \<noteq> init 800 600"
    by auto
  show ?thesis using 1 2 3 by blast
qed

text \<open>
  C7, amended. A message that fails to parse is logged and dropped, the client unchanged.
  A message that parses is not validated. \<open>players_moved\<close> without \<open>players\<close> and
  \<open>player_joined\<close> without \<open>player\<close> throw before any write: the error is logged and the
  client is unchanged. A successful \<open>join_game\<close> without \<open>players\<close> or without
  \<open>avatars\<close>, and a \<open>player_joined\<close> without \<open>avatar\<close>, keep the writes made before the
  missing field is reached: the local identity, then the players.
\<close>

theorem malformed_dropped:
  "onmessage st None = (st, [Io (ConsoleError ''Error parsing message:'')])
   \<and> onmessage st (Some (PlayersMoved None))
       = (st, [Io (ConsoleLog ''Received message:''), Io (ConsoleError ''Error parsing message:'')])
   \<and> onmessage st (Some (PlayerJoined None a))
       = (st, [Io (ConsoleLog ''Received message:''), Io (ConsoleError ''Error parsing message:'')])
   \<and> onmessage st (Some (JoinGame (Some True) pid None avs))
       = (st\<lparr> playerId := key_of pid \<rparr>,
          [Io (ConsoleLog ''Received message:''), Io (ConsoleError ''Error parsing message:'')])
   \<and> onmessage st (Some (JoinGame (Some True) pid (Some pl) None))
       = (fold store_player pl (st\<lparr> playerId := key_of pid \<rparr>),
          [Io (ConsoleLog ''Received message:''), Io (ConsoleError ''Error parsing message:'')])
   \<and> onmessage st (Some (PlayerJoined (Some p) None))
       = (st\<lparr> players := map_set (key_of (p_id p)) p (players st) \<rparr>,
          [Io (ConsoleLog ''Received message:''), Io (ConsoleError ''Error parsing message:'')])"
  by (simp add: onmessage_def handleMessage_def handlePlayersMoved_def handlePlayerJoined_def
      handleJoinGame_def Let_def)

subsection \<open>The proximity loop, peer by peer\<close>

lemma frame_threshold: "frame st st' \<Longrightarrow> proximityThreshold st' = proximityThreshold st"
  unfolding frame_def by auto

lemma ask_frame:
  "frame st st' \<Longrightarrow> askPlayerToGreet st' pl = askPlayerToGreet st pl"
  "frame st st' \<Longrightarrow> askPlayerToSayGoodbye st' pl = askPlayerToSayGoodbye st pl"
  by (simp_all add: askPlayerToGreet_def askPlayerToSayGoodbye_def socket_open_def frame_socket)

lemma peer_events_append: "peer_events k (a @ b) = peer_events k a @ peer_events k b"
  by (simp add: peer_events_def)

lemma proximityBody_spec:
  assumes "k \<noteq> playerId st"
  shows "proximityBody our k pl st =
     (st\<lparr> greetedPlayers :=
            (if isNear st our pl \<and> playerProximityState st k \<noteq> Some Near
             then insert k (greetedPlayers st) else greetedPlayers st),
          playerProximityState :=
            (playerProximityState st)(k \<mapsto> (if isNear st our pl then Near else Far)) \<rparr>,
      if isNear st our pl \<and> playerProximityState st k \<noteq> Some Near \<and> k \<notin> greetedPlayers st
      then [Greet k (askPlayerToGreet st pl)]
      else if \<not> isNear st our pl \<and> playerProximityState st k = Some Near
      then [Farewell k (askPlayerToSayGoodbye st pl)]
      else [])"
proof -
  have c: "((case playerProximityState st k of None \<Rightarrow> Far | Some s \<Rightarrow> s) = Far)
      = (playerProximityState st k \<noteq> Some Near)"
    by (cases "playerProximityState st k") (auto intro: proximity.exhaust)
  have c': "((case playerProximityState st k of None \<Rightarrow> Far | Some s \<Rightarrow> s) = Near)
      = (playerProximityState st k = Some Near)"
    by (cases "playerProximityState st k") auto
  show ?thesis
    using assms
    unfolding proximityBody_def Let_def c c' isNear_def[symmetric]
    by (auto simp: insert_absorb)
qed

lemma proximityBody_self: "proximityBody our (playerId st) pl st = (st, [])"
  by (simp add: proximityBody_def)

lemma proximityBody_other:
  assumes "k \<noteq> k'"
  shows "peer_view k (fst (proximityBody our k' pl st)) = peer_view k st"
    and "peer_events k (snd (proximityBody our k' pl st)) = []"
proof -
  show "peer_view k (fst (proximityBody our k' pl st)) = peer_view k st"
  proof (cases "k' = playerId st")
    case True
    then show ?thesis by (simp add: proximityBody_self)
  next
    case False
    then show ?thesis using assms by (simp add: proximityBody_spec peer_view_def)
  qed
  show "peer_events k (snd (proximityBody our k' pl st)) = []"
  proof (cases "k' = playerId st")
    case True
    then show ?thesis by (simp add: proximityBody_self peer_events_def)
  next
    case False
    then show ?thesis using assms by (simp add: proximityBody_spec peer_events_def)
  qed
qed

lemma proximityLoop_Cons_state:
  "fst (proximityLoop our (e # es) st)
     = fst (proximityLoop our es (fst (proximityBody our (fst e) (snd e) st)))"
  by (simp add: split_def Let_def)

lemma proximityLoop_Cons_effects:
  "snd (proximityLoop our (e # es) st)
     = snd (proximityBody our (fst e) (snd e) st)
       @ snd (proximityLoop our es (fst (proximityBody our (fst e) (snd e) st)))"
  by (simp add: split_def Let_def)

lemma proximityLoop_other:
  "k \<notin> fst ` set es \<Longrightarrow>
     peer_view k (fst (proximityLoop our es st)) = peer_view k st
     \<and> peer_events k (snd (proximityLoop our es st)) = []"
proof (induction es arbitrary: st)
  case Nil
  show ?case by (simp add: peer_events_def)
next
  case (Cons e es)
  have ne: "k \<noteq> fst e" and rest: "k \<notin> fst ` set es"
    using Cons.prems by auto
  show ?case
    unfolding proximityLoop_Cons_state proximityLoop_Cons_effects peer_events_append
    using Cons.IH[OF rest] proximityBody_other[OF ne] by simp
qed

lemma proximityBody_cong:
  assumes "frame st st1" "peer_view k st1 = peer_view k st"
  shows "peer_view k (fst (proximityBody our k pl st1)) = peer_view k (fst (proximityBody our k pl st))"
    and "snd (proximityBody our k pl st1) = snd (proximityBody our k pl st)"
proof -
  have id: "playerId st1 = playerId st"
    using assms(1) by (rule frame_playerId)
  have nr: "isNear st1 our pl = isNear st our pl"
    by (simp add: isNear_def frame_threshold[OF assms(1)])
  have v: "playerProximityState st1 k = playerProximityState st k"
      "(k \<in> greetedPlayers st1) = (k \<in> greetedPlayers st)"
    using assms(2) by (simp_all add: peer_view_def)
  show "peer_view k (fst (proximityBody our k pl st1)) = peer_view k (fst (proximityBody our k pl st))"
  proof (cases "k = playerId st")
    case True
    then show ?thesis
      using id assms(2) proximityBody_self[of our st pl] proximityBody_self[of our st1 pl] by simp
  next
    case False
    then show ?thesis
      using id by (simp add: proximityBody_spec peer_view_def nr v)
  qed
  show "snd (proximityBody our k pl st1) = snd (proximityBody our k pl st)"
  proof (cases "k = playerId st")
    case True
    then show ?thesis
      using id proximityBody_self[of our st pl] proximityBody_self[of our st1 pl] by simp
  next
    case False
    then show ?thesis
      using id by (simp add: proximityBody_spec nr v ask_frame[OF assms(1)])
  qed
qed

lemma proximityLoop_at:
  "distinct (map fst es) \<Longrightarrow> (k, pl) \<in> set es \<Longrightarrow>
     peer_view k (fst (proximityLoop our es st)) = peer_view k (fst (proximityBody our k pl st))
     \<and> peer_events k (snd (proximityLoop our es st)) = peer_events k (snd (proximityBody our k pl st))"
proof (induction es arbitrary: st)
  case Nil
  then show ?case by simp
next
  case (Cons e es)
  show ?case
  proof (cases "fst e = k")
    case True
    have e: "e = (k, pl)"
      using Cons.prems True by (cases e) (auto simp: rev_image_eqI)
    have "k \<notin> fst ` set es"
      using Cons.prems(1) True by simp
    then show ?thesis
      unfolding proximityLoop_Cons_state proximityLoop_Cons_effects peer_events_append
      using proximityLoop_other[of k es our "fst (proximityBody our k pl st)"] by (simp add: e)
  next
    case False
    have ne: "k \<noteq> fst e" using False by auto
    have mem: "(k, pl) \<in> set es" and d: "distinct (map fst es)"
      using Cons.prems False by auto
    have f: "frame st (fst (proximityBody our (fst e) (snd e) st))"
      by (rule proximityBody_frame)
    have v: "peer_view k (fst (proximityBody our (fst e) (snd e) st)) = peer_view k st"
      by (rule proximityBody_other(1)[OF ne])
    show ?thesis
      unfolding proximityLoop_Cons_state proximityLoop_Cons_effects peer_events_append
      using Cons.IH[OF d mem, of "fst (proximityBody our (fst e) (snd e) st)"]
        proximityBody_cong[OF f v, of our pl] proximityBody_other(2)[OF ne, of our "snd e" st]
      by simp
  qed
qed

lemma transition_ok_idle: "transition_ok k v opn v []"
  by (simp add: transition_ok_def)

lemma peer_step_idle:
  "peer_view k s' = peer_view k s \<Longrightarrow> peer_events k out = [] \<Longrightarrow> peer_step k s s' out"
  by (simp add: peer_step_def transition_ok_idle)

lemma proximityBody_peer_step: "peer_step k s (fst (proximityBody our k pl s)) (snd (proximityBody our k pl s))"
proof (cases "k = playerId s")
  case True
  then show ?thesis
    by (simp add: proximityBody_self peer_step_idle peer_events_def)
next
  case False
  show ?thesis
    unfolding peer_step_def proximityBody_spec[OF False]
    by (simp add: transition_ok_def peer_view_def peer_events_def askPlayerToGreet_def)
qed

lemma checkProximityGreetings_peer_step:
  assumes "wf_players s"
  shows "peer_step k s (fst (checkProximityGreetings s)) (snd (checkProximityGreetings s))"
proof (cases "falsy (playerId s)")
  case True
  then show ?thesis
    by (simp add: checkProximityGreetings_def peer_step_idle peer_events_def)
next
  case False
  show ?thesis
  proof (cases "map_get (players s) (playerId s)")
    case None
    then show ?thesis
      using False by (simp add: checkProximityGreetings_def peer_step_idle peer_events_def)
  next
    case (Some our)
    have c: "checkProximityGreetings s = proximityLoop our (players s) s"
      using False Some by (simp add: checkProximityGreetings_def)
    show ?thesis
    proof (cases "k \<in> fst ` set (players s)")
      case False
      then show ?thesis
        unfolding c using proximityLoop_other[of k "players s" our s] by (simp add: peer_step_idle)
    next
      case True
      then obtain pl where "(k, pl) \<in> set (players s)"
        by auto
      then have "peer_view k (fst (proximityLoop our (players s) s))
            = peer_view k (fst (proximityBody our k pl s))
          \<and> peer_events k (snd (proximityLoop our (players s) s))
            = peer_events k (snd (proximityBody our k pl s))"
        using assms unfolding wf_players_def by (rule proximityLoop_at[rotated])
      then show ?thesis
        unfolding c using proximityBody_peer_step[of k s our pl] by (simp add: peer_step_def)
    qed
  qed
qed

lemma draw_peer_step: "wf_players s \<Longrightarrow> peer_step k s (fst (draw s)) (snd (draw s))"
  unfolding draw_def by (rule checkProximityGreetings_peer_step)

lemma peer_step_after:
  assumes "peer_step k s s' out" "peer_view k s = peer_view k s0" "socket s = socket s0"
    "peer_events k pre = []"
  shows "peer_step k s0 s' (pre @ out)"
  using assms by (simp add: peer_step_def peer_events_append socket_open_def)

lemma step_okI_draw:
  assumes "peer_view k s = peer_view k R" "socket s = socket R"
    "wf_players R \<Longrightarrow> wf_players s" "peer_events k pre = []"
  shows "step_ok k R (fst (draw s), pre @ snd (draw s))"
proof -
  have w: "wf_players (fst (draw s)) = wf_players s"
    by (simp add: wf_players_def frame_players[OF draw_frame])
  have so: "socket (fst (draw s)) = socket s"
    by (rule frame_socket[OF draw_frame])
  have "peer_step k R (fst (draw s)) (pre @ snd (draw s))" if "wf_players R"
    using draw_peer_step[OF assms(3)[OF that], of k] assms(1,2,4) by (rule peer_step_after)
  then show ?thesis
    using assms(3) by (simp add: step_ok_def w)
qed

lemma step_okI_idle:
  assumes "peer_view k s = peer_view k R"
    "wf_players R \<Longrightarrow> wf_players s" "peer_events k pre = []"
  shows "step_ok k R (s, pre)"
  using assms by (simp add: step_ok_def peer_step_idle)

lemma step_ok_events:
  "step_ok k R (st, out) \<Longrightarrow> peer_events k out' = peer_events k out \<Longrightarrow> step_ok k R (st, out')"
  by (simp add: step_ok_def peer_step_def)

lemma peer_events_Io [simp]: "peer_events k (Io i # out) = peer_events k out"
  by (simp add: peer_events_def)

lemma peer_events_MoveCommand [simp]: "peer_events k (MoveCommand d ios # out) = peer_events k out"
  by (simp add: peer_events_def)

lemma peer_events_Nil [simp]: "peer_events k [] = []"
  by (simp add: peer_events_def)

lemma wf_store_player: "wf_players st \<Longrightarrow> wf_players (store_player e st)"
  by (simp add: wf_players_def store_player_def map_set_def distinct_update)

lemma wf_moved_entry: "wf_players st \<Longrightarrow> wf_players (moved_entry e st)"
  using wf_store_player[of st e]
  by (simp add: moved_entry_def Let_def updateViewport_def wf_players_def)

lemma wf_store_avatar: "wf_players (store_avatar e st) = wf_players st"
  by (simp add: wf_players_def store_avatar_def)

lemma wf_fold: "(\<And>e st. wf_players st \<Longrightarrow> wf_players (f e st)) \<Longrightarrow> wf_players st \<Longrightarrow> wf_players (fold f es st)"
  by (induction es arbitrary: st) simp_all

lemma prox_part_view: "prox_part s = prox_part R \<Longrightarrow> peer_view k s = peer_view k R"
  by (simp add: prox_part_def peer_view_def)

lemma prox_part_socket: "prox_part s = prox_part R \<Longrightarrow> socket s = socket R"
  by (simp add: prox_part_def)

lemma prox_part_fold:
  "(\<And>e st. prox_part (f e st) = prox_part st) \<Longrightarrow> prox_part (fold f es st) = prox_part st"
  by (induction es arbitrary: st) simp_all

lemma prox_part_store_player: "prox_part (store_player e st) = prox_part st"
  by (simp add: prox_part_def store_player_def)

lemma prox_part_store_avatar: "prox_part (store_avatar e st) = prox_part st"
  by (simp add: prox_part_def store_avatar_def)

lemma prox_part_moved_entry: "prox_part (moved_entry e st) = prox_part st"
  by (simp add: prox_part_def moved_entry_def Let_def store_player_def updateViewport_def)

lemma handlePlayersMoved_step_ok: "step_ok k R (snd (handlePlayersMoved R ps))"
proof (cases ps)
  case None
  then show ?thesis
    by (simp add: handlePlayersMoved_def step_okI_idle)
next
  case (Some pl)
  have p: "prox_part (fold moved_entry pl R) = prox_part R"
    by (rule prox_part_fold) (rule prox_part_moved_entry)
  have "step_ok k R (fst (draw (fold moved_entry pl R)), [] @ snd (draw (fold moved_entry pl R)))"
    by (rule step_okI_draw)
       (simp_all add: prox_part_view[OF p] prox_part_socket[OF p] wf_fold[of moved_entry, OF wf_moved_entry])
  then show ?thesis
    using Some by (simp add: handlePlayersMoved_def split_def Let_def)
qed

lemma handleJoinGame_step_ok: "step_ok k R (snd (handleJoinGame R success pid ps avs))"
proof (cases "success = Some True")
  case False
  then show ?thesis
    by (simp add: handleJoinGame_def step_okI_idle)
next
  case True
  let ?st1 = "R\<lparr> playerId := key_of pid \<rparr>"
  have p1: "prox_part ?st1 = prox_part R"
    by (simp add: prox_part_def)
  have w1: "wf_players ?st1 = wf_players R"
    by (simp add: wf_players_def)
  show ?thesis
  proof (cases ps)
    case None
    then show ?thesis
      using True by (simp add: handleJoinGame_def step_okI_idle prox_part_view[OF p1] w1)
  next
    case (Some pl)
    let ?st2 = "fold store_player pl ?st1"
    have p2: "prox_part ?st2 = prox_part R"
      using prox_part_fold[of store_player pl ?st1, OF prox_part_store_player] p1 by simp
    have w2: "wf_players R \<Longrightarrow> wf_players ?st2"
      using wf_fold[of store_player ?st1 pl, OF wf_store_player] w1 by simp
    show ?thesis
    proof (cases avs)
      case None
      have "step_ok k R (?st2, [])"
        by (rule step_okI_idle) (simp_all add: prox_part_view[OF p2] w2)
      then show ?thesis
        using True Some None by (simp add: handleJoinGame_def Let_def)
    next
      case av: (Some al)
      let ?st3 = "fold store_avatar al ?st2"
      let ?st4 = "case map_get (players ?st3) (playerId ?st3) of
                    None \<Rightarrow> ?st3
                  | Some ourPlayer \<Rightarrow>
                      updateViewport
                        (?st3\<lparr> playerPosition := \<lparr> pos_x = p_x ourPlayer, pos_y = p_y ourPlayer \<rparr> \<rparr>)"
      have p3: "prox_part ?st3 = prox_part R"
        using prox_part_fold[of store_avatar al ?st2, OF prox_part_store_avatar] p2 by simp
      have w3: "wf_players R \<Longrightarrow> wf_players ?st3"
        using wf_fold[of store_avatar ?st2 al] w2 by (simp add: wf_store_avatar)
      have p4: "prox_part ?st4 = prox_part R"
        using p3 by (simp add: prox_part_def updateViewport_def Let_def split: option.splits)
      have w4: "wf_players R \<Longrightarrow> wf_players ?st4"
        using w3 by (simp add: wf_players_def updateViewport_def Let_def split: option.splits)
      have "step_ok k R (fst (draw ?st4), [Io (ConsoleLog ''Successfully joined game as'')] @ snd (draw ?st4))"
        by (rule step_okI_draw) (simp_all add: prox_part_view[OF p4] prox_part_socket[OF p4] w4)
      then show ?thesis
        using True Some av by (simp add: handleJoinGame_def Let_def split_def)
    qed
  qed
qed

lemma handlePlayerJoined_step_ok: "step_ok k R (snd (handlePlayerJoined R p a))"
proof (cases p)
  case None
  then show ?thesis
    by (simp add: handlePlayerJoined_def step_okI_idle)
next
  case (Some pl)
  let ?st1 = "R\<lparr> players := map_set (key_of (p_id pl)) pl (players R) \<rparr>"
  have p1: "prox_part ?st1 = prox_part R"
    by (simp add: prox_part_def)
  have w1: "wf_players R \<Longrightarrow> wf_players ?st1"
    by (simp add: wf_players_def map_set_def distinct_update)
  show ?thesis
  proof (cases a)
    case None
    have "step_ok k R (?st1, [])"
      by (rule step_okI_idle) (simp_all add: prox_part_view[OF p1] w1)
    then show ?thesis
      using Some None by (simp add: handlePlayerJoined_def Let_def)
  next
    case av: (Some avt)
    let ?st2 = "?st1\<lparr> avatars := map_set (key_of (a_name avt)) avt (avatars ?st1) \<rparr>"
    have p2: "prox_part ?st2 = prox_part R"
      by (simp add: prox_part_def)
    have w2: "wf_players R \<Longrightarrow> wf_players ?st2"
      using w1 by (simp add: wf_players_def)
    have "step_ok k R (fst (draw ?st2), [Io (ConsoleLog ''Player joined:'')] @ snd (draw ?st2))"
      by (rule step_okI_draw) (simp_all add: peer_view_def wf_players_def map_set_def distinct_update)
    then show ?thesis
      using Some av by (simp add: handlePlayerJoined_def Let_def split_def)
  qed
qed

lemma handlePlayerLeft_snd:
  "snd (handlePlayerLeft R pid) =
     (fst (draw (R\<lparr> players := map_delete (key_of pid) (players R),
                     greetedPlayers := greetedPlayers R - {key_of pid},
                     playerProximityState := (playerProximityState R)(key_of pid := None) \<rparr>)),
      [Io (ConsoleLog ''Player left:'')]
      @ snd (draw (R\<lparr> players := map_delete (key_of pid) (players R),
                     greetedPlayers := greetedPlayers R - {key_of pid},
                     playerProximityState := (playerProximityState R)(key_of pid := None) \<rparr>)))"
  by (simp add: handlePlayerLeft_def Let_def split_def)

lemma handlePlayerLeft_step_ok:
  assumes "key_of pid \<noteq> k"
  shows "step_ok k R (snd (handlePlayerLeft R pid))"
  unfolding handlePlayerLeft_snd
  by (rule step_okI_draw)
     (use assms in \<open>simp_all add: peer_view_def wf_players_def map_delete_def distinct_delete\<close>)

lemma step_ok_wrap:
  assumes "step_ok k R (st, out)" "peer_events k pre = []" "peer_events k post = []"
  shows "step_ok k R (st, pre @ out @ post)"
  using assms(1) by (rule step_ok_events) (simp add: peer_events_append assms(2,3))

lemma handleMessage_step_ok:
  assumes "\<not> departure k (Message (Some m))"
  shows "step_ok k R (snd (handleMessage R m))"
proof -
  have h: "step_ok k R (snd (case m of
               JoinGame success pid ps avs \<Rightarrow> handleJoinGame R success pid ps avs
             | PlayersMoved ps \<Rightarrow> handlePlayersMoved R ps
             | PlayerJoined p a \<Rightarrow> handlePlayerJoined R p a
             | PlayerLeft pid \<Rightarrow> handlePlayerLeft R pid
             | UnknownAction \<Rightarrow> (Returned, R, [Io (ConsoleLog ''Unknown message type:'')])))"
    (is "step_ok k R (snd ?r)")
    using assms
    by (cases m)
       (simp_all add: handleJoinGame_step_ok handlePlayersMoved_step_ok handlePlayerJoined_step_ok
          handlePlayerLeft_step_ok step_okI_idle)
  have "step_ok k R (fst (snd ?r), [Io (ConsoleLog ''Received message:'')] @ snd (snd ?r) @ [])"
    by (rule step_ok_wrap) (use h in simp_all)
  then show ?thesis
    by (simp add: handleMessage_def split_def Let_def)
qed

lemma onmessage_step_ok:
  assumes "\<not> departure k (Message parsed)"
  shows "step_ok k R (onmessage R parsed)"
proof (cases parsed)
  case None
  then show ?thesis
    by (simp add: onmessage_def step_okI_idle)
next
  case (Some m)
  obtain c st1 out where h: "handleMessage R m = (c, st1, out)"
    by (cases "handleMessage R m") auto
  have ok: "step_ok k R (st1, out)"
    using handleMessage_step_ok[of k m R] assms Some h by simp
  have "step_ok k R (st1, [] @ out @ [Io (ConsoleError ''Error parsing message:'')])"
    using ok by (rule step_ok_wrap) simp_all
  then show ?thesis
    using Some h ok by (cases c) (simp_all add: onmessage_def)
qed

lemma startContinuousMovement_prox:
  "prox_part (fst (startContinuousMovement st)) = prox_part st"
  "players (fst (startContinuousMovement st)) = players st"
  "peer_events k (snd (startContinuousMovement st)) = []"
  by (simp_all add: startContinuousMovement_def Let_def split_def setInterval_def clearInterval_def
      prox_part_def sendMoveCommand_def)

lemma stopContinuousMovement_prox:
  "prox_part (fst (stopContinuousMovement st)) = prox_part st"
  "players (fst (stopContinuousMovement st)) = players st"
  "peer_events k (snd (stopContinuousMovement st)) = []"
  by (simp_all add: stopContinuousMovement_eq prox_part_def sendMoveCommand_def)

lemma handleKeyDown_prox:
  "prox_part (fst (handleKeyDown st c)) = prox_part st"
  "players (fst (handleKeyDown st c)) = players st"
  "peer_events k (snd (handleKeyDown st c)) = []"
  by (simp_all add: handleKeyDown_def startContinuousMovement_prox)
     (simp_all add: prox_part_def)

lemma handleKeyUp_prox:
  "prox_part (fst (handleKeyUp st c)) = prox_part st"
  "players (fst (handleKeyUp st c)) = players st"
  "peer_events k (snd (handleKeyUp st c)) = []"
  by (simp_all add: handleKeyUp_def Let_def startContinuousMovement_prox stopContinuousMovement_prox)
     (simp_all add: prox_part_def)

lemma step_ok_idle_prox:
  assumes "prox_part (fst res) = prox_part R" "players (fst res) = players R" "peer_events k (snd res) = []"
  shows "step_ok k R res"
proof -
  have "step_ok k R (fst res, snd res)"
    by (rule step_okI_idle)
       (simp_all add: prox_part_view[OF assms(1)] assms(2,3) wf_players_def)
  then show ?thesis by simp
qed

lemma step_KeyDown_effects:
  "snd (step st (KeyDown code key))
     = snd (handleKeyDown st code) @ (if key = ''Enter'' then sayHello (fst (handleKeyDown st code)) else [])"
  by (simp add: split_def Let_def)

lemma peer_events_sayHello: "peer_events k (sayHello st) = []"
  by (simp add: sayHello_def)

lemma step_KeyDown_prox:
  "prox_part (fst (step st (KeyDown code key))) = prox_part st"
  "players (fst (step st (KeyDown code key))) = players st"
  "peer_events k (snd (step st (KeyDown code key))) = []"
  unfolding step_KeyDown_state step_KeyDown_effects
  by (simp_all add: handleKeyDown_prox peer_events_append peer_events_sayHello)

lemma step_step_ok:
  assumes "\<not> departure k ev"
  shows "step_ok k R (step R ev)"
proof (cases ev)
  case (Message parsed)
  then show ?thesis using assms onmessage_step_ok[of k parsed R] by simp
next
  case (KeyDown code key)
  show ?thesis
    unfolding KeyDown
    by (rule step_ok_idle_prox) (rule step_KeyDown_prox)+
next
  case (KeyUp code)
  show ?thesis
    unfolding KeyUp by (rule step_ok_idle_prox) (simp_all add: handleKeyUp_prox)
next
  case (IntervalFires h)
  show ?thesis
    unfolding IntervalFires
    by (rule step_ok_idle_prox) (simp_all add: intervalFires_def sendMoveCommand_def split: option.splits)
next
  case (Resize w h)
  have "step_ok k R (fst (draw (R\<lparr> canvas_width := w, canvas_height := h \<rparr>)),
      [] @ snd (draw (R\<lparr> canvas_width := w, canvas_height := h \<rparr>)))"
    by (rule step_okI_draw) (simp_all add: peer_view_def wf_players_def)
  then show ?thesis
    unfolding Resize by simp
next
  case WorldImageLoaded
  have "step_ok k R (fst (draw R), [] @ snd (draw R))"
    by (rule step_okI_draw) simp_all
  then show ?thesis
    unfolding WorldImageLoaded by simp
next
  case SocketOpened
  show ?thesis
    unfolding SocketOpened step.simps
    by (rule step_okI_idle) (simp_all add: peer_view_def wf_players_def)
next
  case SocketClosed
  show ?thesis
    unfolding SocketClosed step.simps
    by (rule step_okI_idle) (simp_all add: peer_view_def wf_players_def)
next
  case SocketFailed
  show ?thesis
    unfolding SocketFailed by (rule step_ok_idle_prox) simp_all
qed

subsection \<open>Steps and runs, peer by peer\<close>

lemma filter_greet_peer_events: "filter (is_greet k) (peer_events k out) = filter (is_greet k) out"
  unfolding peer_events_def filter_filter by (rule filter_cong) auto

lemma filter_farewell_peer_events: "filter (is_farewell k) (peer_events k out) = filter (is_farewell k) out"
  unfolding peer_events_def filter_filter by (rule filter_cong) auto

lemma peer_step_greets:
  "peer_step k s s' out \<Longrightarrow>
     greets k out = (if k \<notin> greetedPlayers s \<and> playerProximityState s k \<noteq> Some Near
                        \<and> playerProximityState s' k = Some Near then 1 else 0)"
  by (simp add: peer_step_def transition_ok_def peer_view_def greets_def filter_greet_peer_events)

lemma peer_step_farewells:
  "peer_step k s s' out \<Longrightarrow>
     farewells k out = (if playerProximityState s k = Some Near
                          \<and> playerProximityState s' k = Some Far then 1 else 0)"
  by (simp add: peer_step_def transition_ok_def peer_view_def farewells_def filter_farewell_peer_events)

lemma peer_step_greeted:
  "peer_step k s s' out \<Longrightarrow> (k \<in> greetedPlayers s') = (k \<in> greetedPlayers s \<or> greets k out = 1)"
proof -
  assume a: "peer_step k s s' out"
  have "greets k out \<le> 1"
    using peer_step_greets[OF a] by simp
  then have "(filter (is_greet k) out \<noteq> []) = (greets k out = 1)"
    unfolding greets_def by (cases "filter (is_greet k) out") auto
  then show ?thesis
    using a by (simp add: peer_step_def transition_ok_def peer_view_def filter_greet_peer_events)
qed

lemma peer_step_closed:
  assumes "peer_step k s s' out" "\<not> socket_open s" "greets k out = 1"
  shows "filter (is_greet k) out = [Greet k []]"
proof -
  have "filter (is_greet k) (peer_events k out)
      = replicate (length (filter (is_greet k) (peer_events k out))) (Greet k [])"
    using assms(1,2) unfolding peer_step_def transition_ok_def by blast
  then have "filter (is_greet k) out = replicate (greets k out) (Greet k [])"
    unfolding filter_greet_peer_events greets_def .
  then show ?thesis
    unfolding assms(3) by simp
qed

lemma draw_absent:
  assumes "k \<notin> fst ` set (players s)"
  shows "peer_view k (fst (draw s)) = peer_view k s \<and> peer_events k (snd (draw s)) = []"
  unfolding draw_def checkProximityGreetings_def
  using proximityLoop_other[OF assms] by (simp split: option.splits)

lemma departure_step:
  assumes "departure k ev"
  shows "peer_view k (fst (step R ev)) = (None, False)
    \<and> peer_events k (snd (step R ev)) = []
    \<and> k \<notin> fst ` set (players (fst (step R ev)))"
proof -
  obtain pid where ev: "ev = Message (Some (PlayerLeft pid))" and k: "key_of pid = k"
    using assms by (rule departure.elims) auto
  let ?s = "R\<lparr> players := map_delete k (players R),
                     greetedPlayers := greetedPlayers R - {k},
                     playerProximityState := (playerProximityState R)(k := None) \<rparr>"
  have hl: "snd (handlePlayerLeft R pid) = (fst (draw ?s), [Io (ConsoleLog ''Player left:'')] @ snd (draw ?s))"
    unfolding handlePlayerLeft_snd k ..
  have absent: "k \<notin> fst ` set (players ?s)"
    by (simp add: map_delete_def delete_notin_dom)
  have st: "step R ev = (fst (draw ?s), Io (ConsoleLog ''Received message:'') # Io (ConsoleLog ''Player left:'') # snd (draw ?s))"
    using hl by (cases "handlePlayerLeft R pid")
      (simp add: ev onmessage_def handleMessage_def handlePlayerLeft_def Let_def split_def)
  have v: "peer_view k ?s = (None, False)"
    by (simp add: peer_view_def)
  have pl: "players (fst (draw ?s)) = players ?s"
    by (rule frame_players[OF draw_frame])
  show ?thesis
    unfolding st using draw_absent[OF absent] v absent by (simp add: pl)
qed

lemma not_departure_KNull: "\<not> departure KNull ev"
proof
  assume "departure KNull ev"
  then obtain pid where "key_of pid = KNull"
    by (rule departure.elims) auto
  then show False
    by (cases pid) (simp_all add: key_of_def)
qed

lemma wf_players_step: "wf_players R \<Longrightarrow> wf_players (fst (step R ev))"
  using step_step_ok[OF not_departure_KNull, of R ev] by (simp add: step_ok_def)

lemma wf_players_run: "wf_players R \<Longrightarrow> wf_players (fst (run R evs))"
proof (induction evs arbitrary: R)
  case Nil
  then show ?case by simp
next
  case (Cons e es)
  have "wf_players (fst (run (fst (step R e)) es))"
    by (rule Cons.IH) (rule wf_players_step[OF Cons.prems])
  then show ?case unfolding run_Cons_state .
qed

lemma wf_players_reachable: "wf_players (fst (run (init w h) evs))"
  by (rule wf_players_run) (simp add: wf_players_def init_def)

lemma step_greets:
  assumes "wf_players R"
  shows "greets k (snd (step R ev))
     = (if k \<notin> greetedPlayers R \<and> playerProximityState R k \<noteq> Some Near
           \<and> playerProximityState (fst (step R ev)) k = Some Near then 1 else 0)"
proof (cases "departure k ev")
  case True
  have "filter (is_greet k) (snd (step R ev)) = []"
    using departure_step[OF True, of R] filter_greet_peer_events[of k "snd (step R ev)"] by simp
  then show ?thesis
    using departure_step[OF True, of R] by (simp add: greets_def peer_view_def)
next
  case False
  then show ?thesis
    using step_step_ok[OF False, of R] assms by (simp add: step_ok_def peer_step_greets)
qed

lemma step_farewells:
  assumes "wf_players R"
  shows "farewells k (snd (step R ev))
     = (if playerProximityState R k = Some Near
           \<and> playerProximityState (fst (step R ev)) k = Some Far then 1 else 0)"
proof (cases "departure k ev")
  case True
  have "filter (is_farewell k) (snd (step R ev)) = []"
    using departure_step[OF True, of R] filter_farewell_peer_events[of k "snd (step R ev)"] by simp
  then show ?thesis
    using departure_step[OF True, of R] by (simp add: farewells_def peer_view_def)
next
  case False
  then show ?thesis
    using step_step_ok[OF False, of R] assms by (simp add: step_ok_def peer_step_farewells)
qed

lemma step_greeted:
  assumes "wf_players R" "\<not> departure k ev"
  shows "(k \<in> greetedPlayers (fst (step R ev))) = (k \<in> greetedPlayers R \<or> greets k (snd (step R ev)) = 1)"
proof -
  have "peer_step k R (fst (step R ev)) (snd (step R ev))"
    using step_step_ok[OF assms(2), of R] assms(1) by (simp add: step_ok_def)
  then show ?thesis
    by (rule peer_step_greeted)
qed

lemma greets_append: "greets k (a @ b) = greets k a + greets k b"
  by (simp add: greets_def)

lemma farewells_append: "farewells k (a @ b) = farewells k a + farewells k b"
  by (simp add: farewells_def)

lemma run_greets:
  "wf_players R \<Longrightarrow> \<not> list_ex (departure k) evs \<Longrightarrow>
     greets k (snd (run R evs)) \<le> 1
     \<and> (k \<in> greetedPlayers R \<longrightarrow> greets k (snd (run R evs)) = 0)
     \<and> (k \<in> greetedPlayers (fst (run R evs))) = (k \<in> greetedPlayers R \<or> greets k (snd (run R evs)) = 1)"
proof (induction evs arbitrary: R)
  case Nil
  show ?case by (simp add: greets_def)
next
  case (Cons e es)
  have nd: "\<not> departure k e" and rest: "\<not> list_ex (departure k) es"
    using Cons.prems(2) by simp_all
  let ?R1 = "fst (step R e)"
  have w1: "wf_players ?R1"
    by (rule wf_players_step[OF Cons.prems(1)])
  note ih = Cons.IH[OF w1 rest]
  have g1: "greets k (snd (step R e)) \<le> 1" "k \<in> greetedPlayers R \<longrightarrow> greets k (snd (step R e)) = 0"
    using step_greets[OF Cons.prems(1), of k e] by simp_all
  note f1 = step_greeted[OF Cons.prems(1) nd]
  show ?case
    unfolding run_Cons_state run_Cons_effects greets_append
    using ih g1 f1 by auto
qed

lemma run_farewells: "wf_players R \<Longrightarrow> farewells k (snd (run R evs)) = exits k R evs"
proof (induction evs arbitrary: R)
  case Nil
  show ?case by (simp add: farewells_def)
next
  case (Cons e es)
  have "farewells k (snd (run (fst (step R e)) es)) = exits k (fst (step R e)) es"
    by (rule Cons.IH) (rule wf_players_step[OF Cons.prems])
  then show ?case
    unfolding run_Cons_effects farewells_append exits.simps step_farewells[OF Cons.prems]
    by simp
qed

lemma draw_at:
  assumes "wf_players s" "\<not> falsy (playerId s)" "map_get (players s) (playerId s) = Some our"
    "(k, pl) \<in> set (players s)" "k \<noteq> playerId s"
  shows "playerProximityState (fst (draw s)) k = Some (if isNear s our pl then Near else Far)"
proof -
  have c: "draw s = proximityLoop our (players s) s"
    using assms(2,3) by (simp add: draw_def checkProximityGreetings_def)
  have "peer_view k (fst (proximityLoop our (players s) s)) = peer_view k (fst (proximityBody our k pl s))"
    using proximityLoop_at[of "players s" k pl our s] assms(1,4) by (simp add: wf_players_def)
  then show ?thesis
    unfolding c by (simp add: peer_view_def proximityBody_spec[OF assms(5)])
qed

lemma step_PlayersMoved_state:
  "fst (step L (Message (Some (PlayersMoved (Some pl))))) = fst (draw (fold moved_entry pl L))"
  by (simp add: onmessage_def handleMessage_def handlePlayersMoved_def split_def Let_def)

lemma update_near_greets:
  assumes w: "wf_players L"
    and fresh: "KString s \<notin> greetedPlayers L" "playerProximityState L (KString s) \<noteq> Some Near"
    and joined: "\<not> falsy (playerId L)" "map_get (players L) (playerId L) = Some our"
    and other: "playerId L \<noteq> KString s"
    and near: "isNear L our p"
  shows "greets (KString s) (snd (step L (Message (Some (PlayersMoved (Some [(s, p)])))))) = 1"
proof -
  let ?s1 = "L\<lparr> players := map_set (KString s) p (players L) \<rparr>"
  have m: "fold moved_entry [(s, p)] L = ?s1"
    using other by (simp add: moved_entry_def store_player_def Let_def)
  have w1: "wf_players ?s1"
    using w by (simp add: wf_players_def map_set_def distinct_update)
  have our: "map_get (players ?s1) (playerId ?s1) = Some our"
    using joined(2) other by (simp add: map_get_def map_set_def update_conv')
  have "map_of (players ?s1) (KString s) = Some p"
    by (simp add: map_set_def update_conv')
  then have mem: "(KString s, p) \<in> set (players ?s1)"
    by (rule map_of_SomeD)
  have n1: "isNear ?s1 our p"
    using near by (simp add: isNear_def)
  have "playerProximityState (fst (draw ?s1)) (KString s) = Some Near"
    using draw_at[OF w1 _ our mem] joined(1) other n1 by simp
  then have "playerProximityState (fst (step L (Message (Some (PlayersMoved (Some [(s, p)])))))) (KString s)
      = Some Near"
    unfolding step_PlayersMoved_state m .
  then show ?thesis
    using step_greets[OF w, of "KString s" "Message (Some (PlayersMoved (Some [(s, p)])))"] fresh
    by simp
qed

subsection \<open>The example session\<close>

lemma near_eval:
  "num_le (Math_sqrt (Some u)) (Some t) = (0 \<le> u \<and> 0 \<le> t \<and> u \<le> t * t)"
proof (cases "0 \<le> u")
  case False
  then show ?thesis by (simp add: Math_sqrt_def num_le_def)
next
  case True
  show ?thesis
  proof (cases "0 \<le> t")
    case False
    have "0 \<le> sqrt u" by (rule real_sqrt_ge_zero[OF True])
    then have "\<not> sqrt u \<le> t" using False by linarith
    then show ?thesis using False True by (simp add: Math_sqrt_def num_le_def)
  next
    case t: True
    have "(sqrt u \<le> t) = (sqrt u \<le> sqrt (t * t))"
      using t by simp
    also have "\<dots> = (u \<le> t * t)"
      by (rule real_sqrt_le_iff)
    finally show ?thesis
      using True t by (simp add: Math_sqrt_def num_le_def)
  qed
qed

lemma distance_eval:
  "num_le (calculateDistance
      \<lparr> p_id = i, p_username = n, p_x = Some x, p_y = Some y, p_avatar = a, p_facing = f, p_animationFrame = fr \<rparr>
      \<lparr> p_id = i', p_username = n', p_x = Some x', p_y = Some y', p_avatar = a', p_facing = f', p_animationFrame = fr' \<rparr>)
     (Some t)
   = (0 \<le> (x - x') * (x - x') + (y - y') * (y - y') \<and> 0 \<le> t
      \<and> (x - x') * (x - x') + (y - y') * (y - y') \<le> t * t)"
  by (simp add: calculateDistance_def num_sub_def num_mul_def num_add_def Let_def near_eval)

lemmas eval_defs = init_def onmessage_def handleMessage_def handleJoinGame_def handlePlayersMoved_def
      handlePlayerLeft_def moved_entry_def map_delete_def
      key_of_def store_player_def store_avatar_def map_set_def map_get_def updateViewport_def
      num_sub_def Math_min_def Math_max_def Let_def draw_def checkProximityGreetings_def falsy_def
      proximityBody_def player_at_def distance_eval
      askPlayerToGreet_def askPlayerToSayGoodbye_def socket_open_def template_def

lemma joined_eq:
  "joined = (init 800 600)\<lparr> playerId := KString ''me'',
      players := [(KString ''me'', player_at ''me'' 0 0), (KString ''p2'', player_at ''p2'' 150 0)],
      socket := Some OPEN,
      playerProximityState := [KString ''p2'' \<mapsto> Far] \<rparr>"
  by (simp add: joined_def roster_def eval_defs)

lemma approached_joined: "approached = fst (step joined (moved_to 90))"
  by (simp add: approached_def joined_def split_def Let_def)

lemma step_joined_90:
  "step joined (moved_to 90) =
     (joined\<lparr> players := [(KString ''me'', player_at ''me'' 0 0), (KString ''p2'', player_at ''p2'' 90 0)],
        greetedPlayers := {KString ''p2''},
        playerProximityState := [KString ''p2'' \<mapsto> Near] \<rparr>,
      [Io (ConsoleLog ''Received message:''),
       Greet (KString ''p2'')
         [SocketSend (Chat ''hii! nice to meet you Roger''),
          ConsoleLog ''p2 greeted Roger!'',
          ShowMessage ''p2: hii! nice to meet you Roger'']])"
  by (simp add: joined_eq moved_to_def eval_defs)

lemma approached_eq:
  "approached =
     joined\<lparr> players := [(KString ''me'', player_at ''me'' 0 0), (KString ''p2'', player_at ''p2'' 90 0)],
        greetedPlayers := {KString ''p2''},
        playerProximityState := [KString ''p2'' \<mapsto> Near] \<rparr>"
  by (simp add: approached_joined step_joined_90)

lemma step_approached_120:
  "step approached (moved_to 120) =
     (approached\<lparr> players := [(KString ''me'', player_at ''me'' 0 0), (KString ''p2'', player_at ''p2'' 120 0)],
        playerProximityState := [KString ''p2'' \<mapsto> Far] \<rparr>,
      [Io (ConsoleLog ''Received message:''),
       Farewell (KString ''p2'')
         [SocketSend (Chat ''bye Roger!''),
          ConsoleLog ''p2 said goodbye to Roger!'',
          ShowMessage ''p2: bye Roger!'']])"
  by (simp add: approached_eq joined_eq moved_to_def eval_defs)

lemma offline_eq: "offline = joined\<lparr> socket := Some CLOSED \<rparr>"
  by (simp add: offline_def joined_def split_def Let_def)

lemma step_offline_90:
  "step offline (moved_to 90) =
     (offline\<lparr> players := [(KString ''me'', player_at ''me'' 0 0), (KString ''p2'', player_at ''p2'' 90 0)],
        greetedPlayers := {KString ''p2''},
        playerProximityState := [KString ''p2'' \<mapsto> Near] \<rparr>,
      [Io (ConsoleLog ''Received message:''), Greet (KString ''p2'') []])"
  by (simp add: offline_eq joined_eq moved_to_def eval_defs)

lemma departed_eq:
  "departed =
     approached\<lparr> players := [(KString ''me'', player_at ''me'' 0 0)],
        greetedPlayers := {},
        playerProximityState := Map.empty \<rparr>"
  by (simp add: departed_def approached_eq joined_eq eval_defs)

subsection \<open>Greeting once\<close>

text \<open>
  C1. In any state the client can reach, and for any peer \<open>k\<close>: over any further events
  without a departure of \<open>k\<close> at most one greeting of \<open>k\<close> is emitted; an event emits a
  greeting of \<open>k\<close> exactly when it takes \<open>k\<close> from not near to near while the greeted flag
  is unset, and it sets the flag; and once the flag is set no greeting of \<open>k\<close> is emitted
  and the flag stays set, however often the peer leaves and re-enters the range, until
  it departs.
\<close>

theorem greet_once:
  "(\<not> list_ex (departure k) evs \<longrightarrow> greets k (snd (run (fst (run (init w h) past)) evs)) \<le> 1)
   \<and> greets k (snd (step (fst (run (init w h) past)) ev))
       = (if k \<notin> greetedPlayers (fst (run (init w h) past))
             \<and> playerProximityState (fst (run (init w h) past)) k \<noteq> Some Near
             \<and> playerProximityState (fst (step (fst (run (init w h) past)) ev)) k = Some Near
          then 1 else 0)
   \<and> (greets k (snd (step (fst (run (init w h) past)) ev)) = 1
        \<longrightarrow> k \<in> greetedPlayers (fst (step (fst (run (init w h) past)) ev)))
   \<and> (\<not> list_ex (departure k) evs \<and> k \<in> greetedPlayers (fst (run (init w h) past))
        \<longrightarrow> greets k (snd (run (fst (run (init w h) past)) evs)) = 0
            \<and> k \<in> greetedPlayers (fst (run (fst (run (init w h) past)) evs)))"
proof -
  let ?R = "fst (run (init w h) past)"
  have w: "wf_players ?R"
    by (rule wf_players_reachable)
  have 1: "greets k (snd (run ?R evs)) \<le> 1" if "\<not> list_ex (departure k) evs"
    using run_greets[OF w that] by simp
  note 2 = step_greets[OF w, of k ev]
  have 3: "k \<in> greetedPlayers (fst (step ?R ev))" if g: "greets k (snd (step ?R ev)) = 1"
  proof (cases "departure k ev")
    case True
    have "filter (is_greet k) (snd (step ?R ev)) = []"
      using departure_step[OF True, of ?R] filter_greet_peer_events[of k "snd (step ?R ev)"] by simp
    then show ?thesis using g by (simp add: greets_def)
  next
    case False
    show ?thesis
      using step_greeted[OF w False] g by simp
  qed
  have 4: "greets k (snd (run ?R evs)) = 0 \<and> k \<in> greetedPlayers (fst (run ?R evs))"
    if "\<not> list_ex (departure k) evs \<and> k \<in> greetedPlayers ?R"
    using run_greets[OF w, of k evs] that by simp
  show ?thesis
    using 1 2 3 4 by blast
qed

theorem greet_once_witness:
  "\<not> list_ex (departure (KString ''p2'')) [moved_to 90, moved_to 120, moved_to 80]
   \<and> greets (KString ''p2'') (snd (run joined [moved_to 90, moved_to 120, moved_to 80])) \<le> 1
   \<and> greets (KString ''p2'') (snd (step joined (moved_to 90))) = 1
   \<and> KString ''p2'' \<in> greetedPlayers (fst (step joined (moved_to 90)))
   \<and> \<not> list_ex (departure (KString ''p2'')) [moved_to 120, moved_to 80]
   \<and> KString ''p2'' \<in> greetedPlayers approached
   \<and> greets (KString ''p2'') (snd (run approached [moved_to 120, moved_to 80])) = 0"
proof -
  have nd3: "\<not> list_ex (departure (KString ''p2'')) [moved_to 90, moved_to 120, moved_to 80]"
    by (simp add: moved_to_def)
  have nd2: "\<not> list_ex (departure (KString ''p2'')) [moved_to 120, moved_to 80]"
    by (simp add: moved_to_def)
  have g: "greets (KString ''p2'') (snd (step joined (moved_to 90))) = 1"
    by (simp add: step_joined_90 greets_def)
  have ap: "KString ''p2'' \<in> greetedPlayers approached"
    by (simp add: approached_eq)
  note a = greet_once[where w = 800 and h = 600 and past = "[SocketOpened, Message (Some roster)]"
      and k = "KString ''p2''" and ev = "moved_to 90" and evs = "[moved_to 90, moved_to 120, moved_to 80]",
      folded joined_def]
  note b = greet_once[where w = 800 and h = 600
      and past = "[SocketOpened, Message (Some roster), moved_to 90]"
      and k = "KString ''p2''" and evs = "[moved_to 120, moved_to 80]", folded approached_def]
  have 1: "greets (KString ''p2'') (snd (run joined [moved_to 90, moved_to 120, moved_to 80])) \<le> 1"
    using a nd3 by blast
  have 2: "KString ''p2'' \<in> greetedPlayers (fst (step joined (moved_to 90)))"
    using a g by blast
  have 3: "greets (KString ''p2'') (snd (run approached [moved_to 120, moved_to 80])) = 0"
    using b nd2 ap by blast
  show ?thesis
    using nd3 nd2 g ap 1 2 3 by blast
qed

subsection \<open>Farewell at every exit\<close>

text \<open>
  C6. In any state the client can reach, an event emits exactly one farewell for the peer
  \<open>k\<close> when it takes \<open>k\<close> from near to far and none otherwise, whatever the greeted flag
  and the past are; over a run the farewells of \<open>k\<close> are as many as its near-to-far
  transitions.
\<close>

theorem farewell_per_exit:
  "farewells k (snd (step (fst (run (init w h) past)) ev))
     = (if playerProximityState (fst (run (init w h) past)) k = Some Near
           \<and> playerProximityState (fst (step (fst (run (init w h) past)) ev)) k = Some Far
        then 1 else 0)
   \<and> farewells k (snd (run (fst (run (init w h) past)) evs)) = exits k (fst (run (init w h) past)) evs"
  using step_farewells[OF wf_players_reachable, of k w h past ev]
    run_farewells[OF wf_players_reachable, of k w h past evs]
  by blast

theorem farewell_per_exit_witness:
  "playerProximityState approached (KString ''p2'') = Some Near
   \<and> KString ''p2'' \<in> greetedPlayers approached
   \<and> playerProximityState (fst (step approached (moved_to 120))) (KString ''p2'') = Some Far
   \<and> farewells (KString ''p2'') (snd (step approached (moved_to 120))) = 1"
proof -
  have 1: "playerProximityState approached (KString ''p2'') = Some Near"
    by (simp add: approached_eq)
  have 2: "KString ''p2'' \<in> greetedPlayers approached"
    by (simp add: approached_eq)
  have 3: "playerProximityState (fst (step approached (moved_to 120))) (KString ''p2'') = Some Far"
    by (simp add: step_approached_120)
  note f = farewell_per_exit[where w = 800 and h = 600
      and past = "[SocketOpened, Message (Some roster), moved_to 90]"
      and k = "KString ''p2''" and ev = "moved_to 120", folded approached_def]
  have 4: "farewells (KString ''p2'') (snd (step approached (moved_to 120))) = 1"
    using f 1 3 by simp
  show ?thesis
    using 1 2 3 4 by blast
qed

subsection \<open>A greeting while the socket is not open\<close>

text \<open>
  C10. If the socket is not open when an event takes the peer \<open>k\<close> from not near to near
  with the greeted flag unset, the greeting is made with nothing sent, the flag is set all
  the same, and no greeting of \<open>k\<close> is emitted over any later events without a departure of
  \<open>k\<close>, also after the socket has opened again.
\<close>

theorem greet_discarded_when_closed:
  assumes "\<not> socket_open (fst (run (init w h) past))"
    and "k \<notin> greetedPlayers (fst (run (init w h) past))"
    and "playerProximityState (fst (run (init w h) past)) k \<noteq> Some Near"
    and "playerProximityState (fst (step (fst (run (init w h) past)) ev)) k = Some Near"
  shows "filter (is_greet k) (snd (step (fst (run (init w h) past)) ev)) = [Greet k []]
    \<and> k \<in> greetedPlayers (fst (step (fst (run (init w h) past)) ev))
    \<and> (\<not> list_ex (departure k) evs
        \<longrightarrow> greets k (snd (run (fst (step (fst (run (init w h) past)) ev)) evs)) = 0)"
proof -
  let ?R = "fst (run (init w h) past)"
  have w: "wf_players ?R"
    by (rule wf_players_reachable)
  have g: "greets k (snd (step ?R ev)) = 1"
    using step_greets[OF w, of k ev] assms(2,3,4) by simp
  have nd: "\<not> departure k ev"
  proof
    assume "departure k ev"
    then have "playerProximityState (fst (step ?R ev)) k = None"
      using departure_step[of k ev ?R] by (simp add: peer_view_def)
    then show False using assms(4) by simp
  qed
  have ps: "peer_step k ?R (fst (step ?R ev)) (snd (step ?R ev))"
    using step_step_ok[OF nd, of ?R] w by (simp add: step_ok_def)
  have 1: "filter (is_greet k) (snd (step ?R ev)) = [Greet k []]"
    using peer_step_closed[OF ps assms(1) g] .
  have 2: "k \<in> greetedPlayers (fst (step ?R ev))"
    using step_greeted[OF w nd] g by simp
  have 3: "greets k (snd (run (fst (step ?R ev)) evs)) = 0" if "\<not> list_ex (departure k) evs"
    using run_greets[OF wf_players_step[OF w], of k evs ev] that 2 by simp
  show ?thesis
    using 1 2 3 by blast
qed

theorem greet_discarded_when_closed_witness:
  "\<not> socket_open offline
   \<and> KString ''p2'' \<notin> greetedPlayers offline
   \<and> playerProximityState offline (KString ''p2'') \<noteq> Some Near
   \<and> playerProximityState (fst (step offline (moved_to 90))) (KString ''p2'') = Some Near
   \<and> filter (is_greet (KString ''p2'')) (snd (step offline (moved_to 90))) = [Greet (KString ''p2'') []]
   \<and> KString ''p2'' \<in> greetedPlayers (fst (step offline (moved_to 90)))
   \<and> \<not> list_ex (departure (KString ''p2'')) [SocketOpened, moved_to 120, moved_to 80]
   \<and> greets (KString ''p2'')
        (snd (run (fst (step offline (moved_to 90))) [SocketOpened, moved_to 120, moved_to 80])) = 0"
proof -
  have 1: "\<not> socket_open offline"
    by (simp add: offline_eq socket_open_def)
  have 2: "KString ''p2'' \<notin> greetedPlayers offline"
    by (simp add: offline_eq joined_eq init_def)
  have 3: "playerProximityState offline (KString ''p2'') \<noteq> Some Near"
    by (simp add: offline_eq joined_eq)
  have 4: "playerProximityState (fst (step offline (moved_to 90))) (KString ''p2'') = Some Near"
    by (simp add: step_offline_90)
  have nd: "\<not> list_ex (departure (KString ''p2'')) [SocketOpened, moved_to 120, moved_to 80]"
    by (simp add: moved_to_def)
  note t = greet_discarded_when_closed[where w = 800 and h = 600
      and past = "[SocketOpened, Message (Some roster), SocketClosed]"
      and k = "KString ''p2''" and ev = "moved_to 90"
      and evs = "[SocketOpened, moved_to 120, moved_to 80]", folded offline_def, OF 1 2 3 4]
  show ?thesis
    using t 1 2 3 4 nd by blast
qed

subsection \<open>Departure\<close>

text \<open>
  C4. After the \<open>player_left\<close> message of an id, in any state the client can reach, the id
  is not a key of the player registry, has no proximity state and is not in the greeted
  set. From there the id is fresh: the next event emits a greeting for it exactly when it
  brings it near, and a \<open>players_moved\<close> update that puts it within the threshold of
  the joined local player emits a greeting again.
\<close>

theorem departure_cleanup:
  "key_of pid \<notin> fst ` set (players (fst (step (fst (run (init w h) past)) (Message (Some (PlayerLeft pid))))))
   \<and> map_get (players (fst (step (fst (run (init w h) past)) (Message (Some (PlayerLeft pid))))))
        (key_of pid) = None
   \<and> key_of pid \<notin> greetedPlayers (fst (step (fst (run (init w h) past)) (Message (Some (PlayerLeft pid)))))
   \<and> playerProximityState (fst (step (fst (run (init w h) past)) (Message (Some (PlayerLeft pid)))))
        (key_of pid) = None
   \<and> greets (key_of pid)
        (snd (step (fst (step (fst (run (init w h) past)) (Message (Some (PlayerLeft pid))))) ev))
       = (if playerProximityState
               (fst (step (fst (step (fst (run (init w h) past)) (Message (Some (PlayerLeft pid))))) ev))
               (key_of pid) = Some Near
          then 1 else 0)
   \<and> (pid = Some s
        \<and> \<not> falsy (playerId (fst (step (fst (run (init w h) past)) (Message (Some (PlayerLeft pid))))))
        \<and> map_get (players (fst (step (fst (run (init w h) past)) (Message (Some (PlayerLeft pid))))))
             (playerId (fst (step (fst (run (init w h) past)) (Message (Some (PlayerLeft pid))))))
            = Some our
        \<and> playerId (fst (step (fst (run (init w h) past)) (Message (Some (PlayerLeft pid))))) \<noteq> KString s
        \<and> isNear (fst (step (fst (run (init w h) past)) (Message (Some (PlayerLeft pid))))) our p
       \<longrightarrow> greets (KString s)
             (snd (step (fst (step (fst (run (init w h) past)) (Message (Some (PlayerLeft pid)))))
                    (Message (Some (PlayersMoved (Some [(s, p)])))))) = 1)"
proof -
  let ?R = "fst (run (init w h) past)"
  let ?L = "fst (step ?R (Message (Some (PlayerLeft pid))))"
  let ?k = "key_of pid"
  have dep: "departure ?k (Message (Some (PlayerLeft pid)))"
    by simp
  note d = departure_step[OF dep, of ?R]
  have w: "wf_players ?L"
    by (rule wf_players_step) (rule wf_players_reachable)
  have 1: "?k \<notin> fst ` set (players ?L)"
    using d by simp
  have 2: "map_get (players ?L) ?k = None"
    using 1 by (simp add: map_get_def map_of_eq_None_iff)
  have 3: "?k \<notin> greetedPlayers ?L" and 4: "playerProximityState ?L ?k = None"
    using d by (simp_all add: peer_view_def)
  have 5: "greets ?k (snd (step ?L ev))
       = (if playerProximityState (fst (step ?L ev)) ?k = Some Near then 1 else 0)"
    using step_greets[OF w, of ?k ev] 3 4 by simp
  have 6: "greets (KString s) (snd (step ?L (Message (Some (PlayersMoved (Some [(s, p)])))))) = 1"
    if h: "pid = Some s \<and> \<not> falsy (playerId ?L) \<and> map_get (players ?L) (playerId ?L) = Some our
        \<and> playerId ?L \<noteq> KString s \<and> isNear ?L our p"
  proof -
    have k: "?k = KString s"
      using h by (simp add: key_of_def)
    have f1: "KString s \<notin> greetedPlayers ?L"
      using 3 unfolding k .
    have f2: "playerProximityState ?L (KString s) \<noteq> Some Near"
      using 4 unfolding k by simp
    from h have j1: "\<not> falsy (playerId ?L)" and j2: "map_get (players ?L) (playerId ?L) = Some our"
      and j3: "playerId ?L \<noteq> KString s" and j4: "isNear ?L our p"
      by blast+
    show ?thesis
      by (rule update_near_greets[OF w f1 f2 j1 j2 j3 j4])
  qed
  show ?thesis
    using 1 2 3 4 5 6 by blast
qed

theorem departure_cleanup_witness:
  "\<not> falsy (playerId departed)
   \<and> map_get (players departed) (playerId departed) = Some (player_at ''me'' 0 0)
   \<and> playerId departed \<noteq> KString ''p2''
   \<and> isNear departed (player_at ''me'' 0 0) (player_at ''p2'' 80 0)
   \<and> KString ''p2'' \<in> greetedPlayers approached
   \<and> KString ''p2'' \<notin> greetedPlayers departed
   \<and> greets (KString ''p2'')
        (snd (step departed (Message (Some (PlayersMoved (Some [(''p2'', player_at ''p2'' 80 0)])))))) = 1"
proof -
  have 1: "\<not> falsy (playerId departed)"
    by (simp add: departed_eq approached_eq joined_eq falsy_def)
  have 2: "map_get (players departed) (playerId departed) = Some (player_at ''me'' 0 0)"
    by (simp add: departed_eq approached_eq joined_eq map_get_def)
  have 3: "playerId departed \<noteq> KString ''p2''"
    by (simp add: departed_eq approached_eq joined_eq)
  have 4: "isNear departed (player_at ''me'' 0 0) (player_at ''p2'' 80 0)"
    by (simp add: isNear_def player_at_def distance_eval departed_eq approached_eq joined_eq init_def)
  have 5: "KString ''p2'' \<in> greetedPlayers approached"
    by (simp add: approached_eq)
  note t = departure_cleanup[where w = 800 and h = 600
      and past = "[SocketOpened, Message (Some roster), moved_to 90]"
      and pid = "Some ''p2''" and s = "''p2''" and our = "player_at ''me'' 0 0"
      and p = "player_at ''p2'' 80 0", folded approached_def, folded departed_def]
  have 6: "KString ''p2'' \<notin> greetedPlayers departed"
    using t by (simp add: key_of_def)
  have 7: "greets (KString ''p2'')
        (snd (step departed (Message (Some (PlayersMoved (Some [(''p2'', player_at ''p2'' 80 0)])))))) = 1"
    using t 1 2 3 4 by blast
  show ?thesis
    using 1 2 3 4 5 6 7 by blast
qed

end
